theory Spec2Isabelle
  imports Main "HOL-Library.Extended_Nat"
begin

section \<open>JavaScript strings\<close>

text \<open>
  A JavaScript string is a sequence of UTF-16 code units. A code unit is modelled as a
  natural number (a real string only holds units below 65536), so that the characters
  the code treats specially and that lie outside ASCII (U+00A0, U+2028, U+FEFF, ...)
  can be written down. String literals of the source are written \<open>asc ''...''\<close>.
\<close>

type_synonym jstring = "nat list"

definition asc :: "string \<Rightarrow> jstring" where
  "asc s = map of_char s"

text \<open>
  \<open>isWhiteSpace\<close> is the set that \<open>String.prototype.trim\<close> strips and that \<open>\s\<close>
  matches (ECMAScript WhiteSpace and LineTerminator); \<open>isLineTerminator\<close> is the set
  that \<open>.\<close> does not match in a regular expression without the \<open>s\<close> flag;
  \<open>isDigit\<close> is \<open>\d\<close>.
\<close>

definition isWhiteSpace :: "nat \<Rightarrow> bool" where
  "isWhiteSpace c \<longleftrightarrow>
     c = 9 \<or> c = 10 \<or> c = 11 \<or> c = 12 \<or> c = 13 \<or> c = 32 \<or> c = 160 \<or> c = 5760 \<or>
     (8192 \<le> c \<and> c \<le> 8202) \<or> c = 8232 \<or> c = 8233 \<or> c = 8239 \<or> c = 8287 \<or>
     c = 12288 \<or> c = 65279"

definition isLineTerminator :: "nat \<Rightarrow> bool" where
  "isLineTerminator c \<longleftrightarrow> c = 10 \<or> c = 13 \<or> c = 8232 \<or> c = 8233"

definition isDigit :: "nat \<Rightarrow> bool" where
  "isDigit c \<longleftrightarrow> 48 \<le> c \<and> c \<le> 57"

definition trim_js :: "jstring \<Rightarrow> jstring" where
  "trim_js s = rev (dropWhile isWhiteSpace (rev (dropWhile isWhiteSpace s)))"

text \<open>\<open>s.split('\n')\<close>: never empty, \<open>''.split('\n')\<close> is \<open>['']\<close>.\<close>

fun split_nl :: "jstring \<Rightarrow> jstring list" where
  "split_nl [] = [[]]"
| "split_nl (c # cs) =
     (if c = 10 then [] # split_nl cs
      else (case split_nl cs of [] \<Rightarrow> [[c]] | l # ls \<Rightarrow> (c # l) # ls))"

text \<open>\<open>xs.join(sep)\<close>.\<close>

fun join_js :: "jstring \<Rightarrow> jstring list \<Rightarrow> jstring" where
  "join_js sep [] = []"
| "join_js sep [x] = x"
| "join_js sep (x # y # ys) = x @ sep @ join_js sep (y # ys)"

fun startsWith_js :: "jstring \<Rightarrow> jstring \<Rightarrow> bool" where
  "startsWith_js s [] = True"
| "startsWith_js [] (p # ps) = False"
| "startsWith_js (c # cs) (p # ps) = (c = p \<and> startsWith_js cs ps)"

text \<open>\<open>s.includes(sub)\<close>.\<close>

fun includes_js :: "jstring \<Rightarrow> jstring \<Rightarrow> bool" where
  "includes_js [] sub = (sub = [])"
| "includes_js (c # cs) sub = (startsWith_js (c # cs) sub \<or> includes_js cs sub)"

text \<open>
  A value of type \<open>string | null\<close> used as a condition: true unless it is null or the
  empty string.
\<close>

definition truthy :: "jstring option \<Rightarrow> bool" where
  "truthy v = (case v of None \<Rightarrow> False | Some s \<Rightarrow> s \<noteq> [])"

text \<open>
  The numbers of the source are double-precision numbers. The ones that occur here are
  non-negative integers and \<open>Infinity\<close>: an integer-valued number is modelled by its
  value, \<open>Infinity\<close> by \<open>\<infinity>\<close>. The order of \<open>enat\<close> is the order of these
  numbers.
\<close>

type_synonym jsnumber = enat

text \<open>The natural number that a string of decimal digits denotes.\<close>

definition decimalValue :: "jstring \<Rightarrow> nat" where
  "decimalValue ds = foldl (\<lambda>n c. 10 * n + (c - 48)) 0 ds"

text \<open>
  The double nearest to a natural number. A number below \<open>2^53\<close> is a double. From
  \<open>2^53\<close> on, with \<open>e\<close> the number of low bits that do not fit into the 53 bits of
  the significand, the number is rounded to a multiple of \<open>2^e\<close>, to the nearest one
  and in a tie to the one with an even significand; a result of \<open>2^1024\<close> or more
  is \<open>Infinity\<close>.
\<close>

fun exponent :: "nat \<Rightarrow> nat" where
  "exponent n = (if n < 2 ^ 53 then 0 else Suc (exponent (n div 2)))"

declare exponent.simps [simp del]

definition roundToDouble :: "nat \<Rightarrow> jsnumber" where
  "roundToDouble n =
     (let e = exponent n; q = n div 2 ^ e; r = n mod 2 ^ e;
          m = (if 2 * r < 2 ^ e \<or> (2 * r = 2 ^ e \<and> even q) then q else q + 1) * 2 ^ e
      in if m < 2 ^ 1024 then enat m else \<infinity>)"

text \<open>\<open>parseInt(ds, 10)\<close> on a string of decimal digits.\<close>

definition parseInt :: "jstring \<Rightarrow> jsnumber" where
  "parseInt ds = roundToDouble (decimalValue ds)"

text \<open>The decimal digits of a natural number, for the counters in the messages.\<close>

fun numToString :: "nat \<Rightarrow> jstring" where
  "numToString n = (if n < 10 then [48 + n] else numToString (n div 10) @ [48 + n mod 10])"

declare numToString.simps [simp del]

text \<open>
  A number in a template literal. Below \<open>2^53\<close> the source prints the decimal digits
  of the number. From \<open>2^53\<close> on it prints the shortest digits that read back to the
  same number, in exponent notation from \<open>10^21\<close> on, and the language leaves the
  last of these digits to the implementation: that rendering is the parameter \<open>large\<close>.
\<close>

definition numberToString :: "(nat \<Rightarrow> jstring) \<Rightarrow> jsnumber \<Rightarrow> jstring" where
  "numberToString large x =
     (case x of
        enat n \<Rightarrow> if n < 2 ^ 53 then numToString n else large n
      | \<infinity> \<Rightarrow> asc ''Infinity'')"

section \<open>Types (types.ts)\<close>

datatype AspectRatio = R16_9 | R9_16 | R4_3 | R3_4 | R1_1

datatype AppState = IDLE | GENERATING_PROMPTS | GENERATING_IMAGES | DONE

datatype PromptSource = Script | Custom

datatype Engine = Google | Stability

record GeneratedImage =
  img_id :: jsnumber
  img_prompt :: jstring
  img_base64 :: "jstring option"
  img_url :: "jstring option"
  img_error :: "jstring option"
  img_engine :: "Engine option"

text \<open>\<open>{ id: number; text: string }\<close> and the parser's \<open>{ index: number; text: string }\<close>.\<close>

record Prompt =
  prompt_id :: jsnumber
  prompt_text :: jstring

record Parsed =
  p_index :: jsnumber
  p_text :: jstring

section \<open>The custom-prompt parser (handleGenerate, custom branch)\<close>

text \<open>
  \<open>trimmedLine.match(/^(\d+)\.\s*(.*)$/)\<close>, returning the two groups. \<open>\d+\<close> is
  greedy and must be followed by a period, so group 1 is the longest run of digits at
  the start. \<open>\s*\<close> is greedy; \<open>.*\<close> has to reach the end of the string (\<open>$\<close>
  without the \<open>m\<close> flag) and cannot cross a line terminator, and giving back white
  space to group 2 only makes group 2 longer: the match exists exactly when what follows
  the white space holds no line terminator, and group 2 is that remainder.
\<close>

definition matchNumbered :: "jstring \<Rightarrow> (jstring \<times> jstring) option" where
  "matchNumbered l =
     (let ds = takeWhile isDigit l; r = dropWhile isDigit l in
      if ds = [] then None
      else (case r of
              [] \<Rightarrow> None
            | c # rest \<Rightarrow>
                if c \<noteq> 46 then None
                else (let b = dropWhile isWhiteSpace rest in
                      if list_ex isLineTerminator b then None else Some (ds, b))))"

text \<open>\<open>parsedPrompts.push({ ...currentPrompt, text: currentPrompt.text.trim() })\<close> when a prompt is open.\<close>

definition pushCurrent :: "Parsed option \<Rightarrow> Parsed list \<Rightarrow> Parsed list" where
  "pushCurrent currentPrompt parsedPrompts =
     (case currentPrompt of
        None \<Rightarrow> parsedPrompts
      | Some p \<Rightarrow> parsedPrompts @ [p\<lparr>p_text := trim_js (p_text p)\<rparr>])"

text \<open>The \<open>for (const line of lines)\<close> loop and the push that follows it.\<close>

fun parseLoop :: "jstring list \<Rightarrow> Parsed option \<Rightarrow> Parsed list \<Rightarrow> Parsed list" where
  "parseLoop [] currentPrompt parsedPrompts = pushCurrent currentPrompt parsedPrompts"
| "parseLoop (line # lines) currentPrompt parsedPrompts =
     (let trimmedLine = trim_js line in
      case matchNumbered trimmedLine of
        Some (m1, m2) \<Rightarrow>
          parseLoop lines (Some \<lparr>p_index = parseInt m1, p_text = trim_js m2\<rparr>)
            (pushCurrent currentPrompt parsedPrompts)
      | None \<Rightarrow>
          (case currentPrompt of
             Some p \<Rightarrow>
               if trimmedLine \<noteq> []
               then parseLoop lines (Some (p\<lparr>p_text := p_text p @ 10 # trimmedLine\<rparr>)) parsedPrompts
               else parseLoop lines currentPrompt parsedPrompts
           | None \<Rightarrow> parseLoop lines currentPrompt parsedPrompts))"

definition parsePrompts :: "jstring \<Rightarrow> Parsed list" where
  "parsePrompts customPrompts = parseLoop (split_nl (trim_js customPrompts)) None []"

text \<open>\<open>parsedPrompts.sort((a, b) => a.index - b.index).map(p => ({ id: p.index, text: p.text }))\<close>;
  the sort of an array is stable.\<close>

definition toProcess :: "Parsed list \<Rightarrow> Prompt list" where
  "toProcess parsedPrompts =
     map (\<lambda>p. \<lparr>prompt_id = p_index p, prompt_text = p_text p\<rparr>) (sort_key p_index parsedPrompts)"

text \<open>The text that \<open>handleCopyFailedPrompts\<close> and \<open>downloadPrompts\<close> build from a prompt list.\<close>

definition renderPrompt :: "(nat \<Rightarrow> jstring) \<Rightarrow> Prompt \<Rightarrow> jstring" where
  "renderPrompt large p = numberToString large (prompt_id p) @ asc ''. '' @ prompt_text p"

definition copyText :: "(nat \<Rightarrow> jstring) \<Rightarrow> Prompt list \<Rightarrow> jstring" where
  "copyText large ps = join_js [10, 10] (map (renderPrompt large) ps)"

definition downloadText :: "(nat \<Rightarrow> jstring) \<Rightarrow> Prompt list \<Rightarrow> jstring" where
  "downloadText large ps =
     join_js ([10, 10] @ asc ''---'' @ [10, 10]) (map (renderPrompt large) ps)"

section \<open>Image providers (services/gemini, services/stability)\<close>

text \<open>
  The module of the primary provider throws when it is loaded without \<open>API_KEY\<close>, so
  a run only exists with that key set; the key of the secondary provider is optional and
  is part of the environment below.
\<close>

text \<open>\<open>{ base64: string | null; error: string | null }\<close>\<close>

record GenResult =
  res_base64 :: "jstring option"
  res_error :: "jstring option"

text \<open>
  What the call \<open>ai.models.generateImages\<close> does inside the \<open>try\<close> of \<open>generateImage\<close>:
  it throws (with the message when the exception is an \<open>Error\<close>), or it returns the
  \<open>imageBytes\<close> of the generated images (none when \<open>generatedImages\<close> is absent or
  empty; a missing \<open>imageBytes\<close> is \<open>None\<close>).
\<close>

datatype ImagenOutcome =
  ImagenThrew "jstring option"
| ImagenReturned "jstring option list"

text \<open>\<open>err instanceof Error ? err.message : 'An unknown error occurred.'\<close>\<close>

definition errorMessageOf :: "jstring option \<Rightarrow> jstring" where
  "errorMessageOf m = (case m of Some msg \<Rightarrow> msg | None \<Rightarrow> asc ''An unknown error occurred.'')"

definition generateImage :: "ImagenOutcome \<Rightarrow> GenResult" where
  "generateImage out =
     (case out of
        ImagenReturned imgs \<Rightarrow>
          (case imgs of
             b # _ \<Rightarrow> \<lparr>res_base64 = b, res_error = None\<rparr>
           | [] \<Rightarrow> \<lparr>res_base64 = None, res_error = Some (asc ''The API did not return an image.'')\<rparr>)
      | ImagenThrew m \<Rightarrow>
          (let errorMessage = errorMessageOf m in
           if includes_js errorMessage (asc ''sensitive words'')
              \<or> includes_js errorMessage (asc ''Responsible AI practices'')
              \<or> includes_js errorMessage (asc ''prompt contains sensitive words'')
           then \<lparr>res_base64 = None,
                 res_error = Some (asc ''This prompt was blocked for safety reasons. Please try rephrasing it.'')\<rparr>
           else \<lparr>res_base64 = None, res_error = Some (asc ''Image generation failed.'')\<rparr>))"

text \<open>
  What the \<open>try\<close> of \<open>generateImageWithStability\<close> meets: an exception (from \<open>fetch\<close>,
  from reading the body or from the \<open>FileReader\<close>; with its message when it is an
  \<open>Error\<close>), a response that is not ok (with \<open>errors[0]\<close> when the body has \<open>errors\<close>),
  or an image, as the base64 part of its data URL (absent when the URL has no comma).
\<close>

datatype FetchOutcome =
  FetchThrew "jstring option"
| FetchNotOk "jstring option"
| FetchOk "jstring option"

definition generateImageWithStability :: "jstring option \<Rightarrow> FetchOutcome \<Rightarrow> GenResult" where
  "generateImageWithStability STABILITY_API_KEY out =
     (if \<not> truthy STABILITY_API_KEY
      then \<lparr>res_base64 = None, res_error = Some (asc ''Stability AI API key is not configured.'')\<rparr>
      else (case out of
              FetchOk base64 \<Rightarrow> \<lparr>res_base64 = base64, res_error = None\<rparr>
            | FetchNotOk e \<Rightarrow>
                (let errorMessage = (case e of Some m \<Rightarrow> m | None \<Rightarrow> asc ''Unknown Stability AI error'') in
                 \<lparr>res_base64 = None, res_error = Some (asc ''Stability AI Error: '' @ errorMessage)\<rparr>)
            | FetchThrew m \<Rightarrow>
                (let errorMessage = (case m of Some msg \<Rightarrow> msg
                                     | None \<Rightarrow> asc ''An unknown error occurred with Stability AI.'') in
                 \<lparr>res_base64 = None, res_error = Some (asc ''Stability AI Error: '' @ errorMessage)\<rparr>)))"

text \<open>
  \<open>analyzeImageStyle\<close>: the model call throws, or returns a response whose \<open>text\<close> may
  be absent (then \<open>response.text.trim()\<close> throws inside the same \<open>try\<close>).
\<close>

datatype TextOutcome =
  TextThrew
| TextReturned "jstring option"

definition analyzeImageStyle :: "TextOutcome \<Rightarrow> jstring + jstring" where
  "analyzeImageStyle out =
     (case out of
        TextReturned (Some t) \<Rightarrow> Inr (trim_js t)
      | _ \<Rightarrow> Inl (asc ''Failed to analyze the reference image style.''))"

section \<open>The environment of a run\<close>

record File =
  file_name :: jstring
  file_type :: jstring

record ImageData =
  data_base64 :: "jstring option"
  data_mimeType :: jstring

text \<open>
  Everything a run reads from outside: the build-time \<open>STABILITY_API_KEY\<close>, the
  \<open>FileReader\<close> behind \<open>fileToBase64\<close> (\<open>None\<close> when it rejects), the style model, the
  outcome of \<open>generatePrompts\<close> (the message of the \<open>Error\<close> it throws, or the prompts
  and the request text), and the two image services. The image services are indexed by
  the iteration of the image loop that calls them, so that the same prompt may be
  answered differently at different times.
\<close>

record Env =
  STABILITY_API_KEY :: "jstring option"
  fileToBase64 :: "File \<Rightarrow> ImageData option"
  styleModel :: "ImageData \<Rightarrow> TextOutcome"
  generatePrompts :: "jstring \<Rightarrow> jstring \<Rightarrow> jstring \<Rightarrow> jstring + (jstring list \<times> jstring)"
  imagen :: "nat \<Rightarrow> jstring \<Rightarrow> AspectRatio \<Rightarrow> ImagenOutcome"
  stabilityFetch :: "nat \<Rightarrow> jstring \<Rightarrow> AspectRatio \<Rightarrow> FetchOutcome"

text \<open>The calls to the external services that a run makes, in order.\<close>

datatype Call =
  AnalyzeStyleCall ImageData
| GeneratePromptsCall jstring jstring jstring
| GoogleImageCall jstring AspectRatio
| StabilityImageCall jstring AspectRatio

section \<open>The application (App)\<close>

text \<open>The state of the component that \<open>handleGenerate\<close> reads and writes.\<close>

record App =
  script :: jstring
  niche :: jstring
  imageStyle :: jstring
  aspectRatio :: AspectRatio
  generatedPrompts :: "Prompt list"
  generatedImages :: "GeneratedImage list"
  appState :: AppState
  progressMessage :: jstring
  error :: "jstring option"
  promptSource :: PromptSource
  customPrompts :: jstring
  referenceImageFile :: "File option"
  failedPrompts :: "Prompt list"
  aiRequestPrompt :: jstring

subsection \<open>Step 1 of handleGenerate: the effective image style\<close>

text \<open>
  \<open>Inl\<close> is the message of the error that ends the run, \<open>Inr\<close> the value of
  \<open>effectiveImageStyle\<close>. A rejection of \<open>fileToBase64\<close> is not an \<open>Error\<close>, so the
  handler's own message is used.
\<close>

definition styleStage :: "Env \<Rightarrow> jstring \<Rightarrow> File option \<Rightarrow> (jstring + jstring) \<times> Call list" where
  "styleStage env imageStyle' referenceImageFile' =
     (case referenceImageFile' of
        None \<Rightarrow> (Inr imageStyle', [])
      | Some f \<Rightarrow>
          (case fileToBase64 env f of
             None \<Rightarrow> (Inl (asc ''Failed to analyze reference image.''), [])
           | Some imageData \<Rightarrow>
               (case analyzeImageStyle (styleModel env imageData) of
                  Inl msg \<Rightarrow> (Inl msg, [AnalyzeStyleCall imageData])
                | Inr styleFromImage \<Rightarrow>
                    (Inr (styleFromImage @ asc '', '' @ imageStyle'), [AnalyzeStyleCall imageData]))))"

subsection \<open>Step 3 of handleGenerate: one image per prompt\<close>

definition finalPromptOf :: "PromptSource \<Rightarrow> jstring \<Rightarrow> Prompt \<Rightarrow> jstring" where
  "finalPromptOf promptSource' effectiveImageStyle promptData =
     (if promptSource' = Custom \<and> trim_js effectiveImageStyle \<noteq> []
      then prompt_text promptData @ asc '', '' @ effectiveImageStyle
      else prompt_text promptData)"

text \<open>
  The first attempt and the fallback: the final \<open>result\<close>, the final \<open>engine\<close> and the
  calls made. \<open>i\<close> is the iteration of the loop.
\<close>

definition safetyBlocked :: "GenResult \<Rightarrow> bool" where
  "safetyBlocked result =
     (case res_error result of
        None \<Rightarrow> False
      | Some e \<Rightarrow> e \<noteq> [] \<and> includes_js e (asc ''safety reasons''))"

definition enrich :: "GenResult \<Rightarrow> GenResult" where
  "enrich result =
     (case res_error result of
        None \<Rightarrow> result
      | Some e \<Rightarrow>
          if e \<noteq> []
          then result\<lparr>res_error := Some (asc ''Google blocked prompt. Stability AI also failed: '' @ e)\<rparr>
          else result)"

definition generateWithFallback ::
  "Env \<Rightarrow> nat \<Rightarrow> jstring \<Rightarrow> AspectRatio \<Rightarrow> GenResult \<times> Engine \<times> Call list" where
  "generateWithFallback env i finalPrompt aspectRatio' =
     (let result = generateImage (imagen env i finalPrompt aspectRatio') in
      if safetyBlocked result \<and> truthy (STABILITY_API_KEY env)
      then (enrich (generateImageWithStability (STABILITY_API_KEY env)
                      (stabilityFetch env i finalPrompt aspectRatio')),
            Stability,
            [GoogleImageCall finalPrompt aspectRatio', StabilityImageCall finalPrompt aspectRatio'])
      else (result, Google, [GoogleImageCall finalPrompt aspectRatio']))"

text \<open>\<open>a || b\<close> on strings.\<close>

definition orElse :: "jstring option \<Rightarrow> jstring \<Rightarrow> jstring" where
  "orElse v d = (case v of None \<Rightarrow> d | Some s \<Rightarrow> if s \<noteq> [] then s else d)"

definition newImageOf :: "Prompt \<Rightarrow> GenResult \<Rightarrow> Engine \<Rightarrow> GeneratedImage" where
  "newImageOf promptData result engine =
     (if truthy (res_base64 result)
      then \<lparr>img_id = prompt_id promptData, img_prompt = prompt_text promptData,
            img_base64 = res_base64 result,
            img_url = Some (asc ''data:image/jpeg;base64,'' @ orElse (res_base64 result) []),
            img_error = None, img_engine = Some engine\<rparr>
      else \<lparr>img_id = prompt_id promptData, img_prompt = prompt_text promptData,
            img_base64 = None, img_url = None,
            img_error = Some (orElse (res_error result) (asc ''Failed to generate image.'')),
            img_engine = Some engine\<rparr>)"

text \<open>
  The body of the \<open>for\<close> loop at iteration \<open>i\<close>: the new image, whether the prompt is
  pushed to \<open>localFailedPrompts\<close>, and the calls made.
\<close>

definition processPrompt ::
  "Env \<Rightarrow> PromptSource \<Rightarrow> jstring \<Rightarrow> AspectRatio \<Rightarrow> nat \<Rightarrow> Prompt \<Rightarrow>
   GeneratedImage \<times> bool \<times> Call list" where
  "processPrompt env promptSource' effectiveImageStyle aspectRatio' i promptData =
     (let finalPrompt = finalPromptOf promptSource' effectiveImageStyle promptData in
      case generateWithFallback env i finalPrompt aspectRatio' of
        (result, engine, cs) \<Rightarrow>
          (newImageOf promptData result engine, \<not> truthy (res_base64 result), cs))"

text \<open>The \<open>for\<close> loop over \<open>promptsToProcess\<close>, from index \<open>i\<close> on.\<close>

fun imageLoop ::
  "Env \<Rightarrow> PromptSource \<Rightarrow> jstring \<Rightarrow> AspectRatio \<Rightarrow> nat \<Rightarrow> Prompt list \<Rightarrow>
   GeneratedImage list \<Rightarrow> Prompt list \<Rightarrow> Call list \<Rightarrow>
   GeneratedImage list \<times> Prompt list \<times> Call list" where
  "imageLoop env src style ar i [] imageResults localFailedPrompts calls =
     (imageResults, localFailedPrompts, calls)"
| "imageLoop env src style ar i (promptData # rest) imageResults localFailedPrompts calls =
     (case processPrompt env src style ar i promptData of
        (newImage, failed, cs) \<Rightarrow>
          imageLoop env src style ar (Suc i) rest
            (imageResults @ [newImage])
            (if failed then localFailedPrompts @ [promptData] else localFailedPrompts)
            (calls @ cs))"

definition imageStage :: "Env \<Rightarrow> App \<Rightarrow> jstring \<Rightarrow> Prompt list \<Rightarrow> Call list \<Rightarrow> App \<times> Call list" where
  "imageStage env app effectiveImageStyle promptsToProcess calls =
     (if promptsToProcess = []
      then (app\<lparr>error := Some (asc ''No prompts were generated or provided.''), appState := IDLE\<rparr>, calls)
      else (case imageLoop env (promptSource app) effectiveImageStyle (aspectRatio app) 0
                   promptsToProcess [] [] calls of
              (imageResults, localFailedPrompts, calls') \<Rightarrow>
                (let successfulImages = length (filter (\<lambda>img. \<not> truthy (img_error img)) imageResults) in
                 (app\<lparr>generatedImages := imageResults,
                      failedPrompts := localFailedPrompts,
                      appState := DONE,
                      progressMessage :=
                        (if successfulImages = length promptsToProcess
                         then asc ''All images generated successfully!''
                         else asc ''Generated '' @ numToString successfulImages @ asc '' of ''
                              @ numToString (length promptsToProcess)
                              @ asc '' images. Some prompts may have failed.'')\<rparr>,
                  calls'))))"

subsection \<open>handleGenerate\<close>

text \<open>
  One run, from the state the handler closes over to the state after its last update,
  with the calls it made. The run is sequential, so the states it passes through
  (\<open>GENERATING_PROMPTS\<close>, \<open>GENERATING_IMAGES\<close>, the progress messages of the loop) are
  overwritten before it ends; an exception of \<open>generatePrompts\<close> reaches the outer
  \<open>catch\<close>.
\<close>

definition abort :: "App \<Rightarrow> jstring \<Rightarrow> App" where
  "abort app msg = app\<lparr>error := Some msg, appState := IDLE\<rparr>"

definition noValidPromptsMessage :: jstring where
  "noValidPromptsMessage =
     asc (''No valid numbered prompts found. Use a format like \"1. Your prompt\". '' @
          ''Each prompt must start on a new line with a number and a period.'')"

text \<open>The updates before the first \<open>await\<close>, up to the progress message of step 1.\<close>

definition startRun :: "App \<Rightarrow> App" where
  "startRun app =
     (let app1 = app\<lparr>error := None, progressMessage := asc ''Starting generation...'',
                     generatedImages := [], generatedPrompts := [], failedPrompts := [],
                     aiRequestPrompt := [], appState := GENERATING_PROMPTS\<rparr>
      in if referenceImageFile app = None then app1
         else app1\<lparr>progressMessage := asc ''Analyzing reference image style...''\<rparr>)"

definition handleGenerate :: "Env \<Rightarrow> App \<Rightarrow> App \<times> Call list" where
  "handleGenerate env app =
     (let app2 = startRun app
      in case styleStage env (imageStyle app) (referenceImageFile app) of
           (Inl msg, calls) \<Rightarrow> (abort app2 msg, calls)
         | (Inr effectiveImageStyle, calls) \<Rightarrow>
             (case promptSource app of
                Script \<Rightarrow>
                  if trim_js (script app) = []
                  then (abort app2 (asc ''Script cannot be empty.''), calls)
                  else (let app3 = app2\<lparr>progressMessage := asc ''Analyzing script and generating prompts...''\<rparr>;
                            calls2 = calls @ [GeneratePromptsCall (script app) effectiveImageStyle (niche app)]
                        in case generatePrompts env (script app) effectiveImageStyle (niche app) of
                             Inl msg \<Rightarrow> (abort app3 msg, calls2)
                           | Inr (generated, requestPrompt) \<Rightarrow>
                               (let scriptPrompts =
                                      map (\<lambda>(i, p). \<lparr>prompt_id = enat (i + 1), prompt_text = p\<rparr>)
                                        (List.enumerate 0 generated)
                                in imageStage env
                                     (app3\<lparr>generatedPrompts := scriptPrompts, aiRequestPrompt := requestPrompt\<rparr>)
                                     effectiveImageStyle scriptPrompts calls2))
              | Custom \<Rightarrow>
                  if trim_js (customPrompts app) = []
                  then (abort app2 (asc ''Custom prompts field cannot be empty.''), calls)
                  else (let parsedPrompts = parsePrompts (customPrompts app) in
                        if parsedPrompts = []
                        then (abort app2 noValidPromptsMessage, calls)
                        else (let promptsToProcess = toProcess parsedPrompts in
                              imageStage env (app2\<lparr>generatedPrompts := promptsToProcess\<rparr>)
                                effectiveImageStyle promptsToProcess calls))))"

subsection \<open>The Generate button\<close>

definition isLoading :: "App \<Rightarrow> bool" where
  "isLoading app \<longleftrightarrow> appState app = GENERATING_PROMPTS \<or> appState app = GENERATING_IMAGES"

text \<open>The \<open>disabled\<close> attribute of the button whose \<open>onClick\<close> is \<open>handleGenerate\<close>.\<close>

definition generateDisabled :: "App \<Rightarrow> bool" where
  "generateDisabled app \<longleftrightarrow>
     isLoading app
     \<or> (promptSource app = Script \<and> trim_js (script app) = [])
     \<or> (promptSource app = Custom \<and> trim_js (customPrompts app) = [])"

text \<open>A click on the button: a disabled button dispatches no click, so no run starts.\<close>

definition clickGenerate :: "Env \<Rightarrow> App \<Rightarrow> (App \<times> Call list) option" where
  "clickGenerate env app = (if generateDisabled app then None else Some (handleGenerate env app))"

section \<open>The parser of the specification\<close>

text \<open>
  The state machine that the specification describes, written from its words, to be
  compared with the loop of the source. The matched number of a numbered line is a number
  of the source: what \<open>parseInt\<close> returns for the digits.
\<close>

text \<open>The two states of the parser of the specification, the second with the id and the body so far.\<close>

datatype RefState = NoActivePrompt | BuildingPrompt jsnumber jstring

text \<open>Flushing the prompt that is being built: its body is stripped.\<close>

definition flushRef :: "RefState \<Rightarrow> Prompt list" where
  "flushRef st =
     (case st of
        NoActivePrompt \<Rightarrow> []
      | BuildingPrompt n body \<Rightarrow> [\<lparr>prompt_id = n, prompt_text = trim_js body\<rparr>])"

text \<open>A blank line: nothing but white space.\<close>

definition isBlank :: "jstring \<Rightarrow> bool" where
  "isBlank l \<longleftrightarrow> list_all isWhiteSpace l"

text \<open>
  One line: a numbered line flushes the prompt being built and starts a new one; another
  line is dropped when no prompt has started or when it is blank, and is appended to the
  body after a newline otherwise.
\<close>

definition refStep :: "RefState \<times> Prompt list \<Rightarrow> jstring \<Rightarrow> RefState \<times> Prompt list" where
  "refStep s line =
     (case s of (st, out) \<Rightarrow>
        (case matchNumbered line of
           Some (digits, body) \<Rightarrow> (BuildingPrompt (parseInt digits) body, out @ flushRef st)
         | None \<Rightarrow>
             (case st of
                NoActivePrompt \<Rightarrow> (NoActivePrompt, out)
              | BuildingPrompt n body \<Rightarrow>
                  if isBlank line then (st, out)
                  else (BuildingPrompt n (body @ 10 # line), out))))"

text \<open>The machine run over all lines, the last prompt flushed, the output ordered by id.\<close>

definition refMachine :: "jstring list \<Rightarrow> Prompt list" where
  "refMachine lines =
     (case foldl refStep (NoActivePrompt, []) lines of
        (st, out) \<Rightarrow> sort_key prompt_id (out @ flushRef st))"

text \<open>The parser as the specification words it: the machine on the lines of the raw text.\<close>

definition specParser :: "jstring \<Rightarrow> Prompt list" where
  "specParser raw = refMachine (split_nl raw)"

text \<open>The same machine on the lines of the raw text, each stripped of surrounding white space.\<close>

definition specParserStripped :: "jstring \<Rightarrow> Prompt list" where
  "specParserStripped raw = refMachine (map trim_js (split_nl raw))"

text \<open>No line of the text, stripped, matches the numbered-prompt pattern.\<close>

definition noNumberedLine :: "jstring \<Rightarrow> bool" where
  "noNumberedLine raw \<longleftrightarrow> list_all (\<lambda>l. matchNumbered (trim_js l) = None) (split_nl raw)"

section \<open>Auxiliary notions for the proofs\<close>

text \<open>The lines that the loop does not skip: stripped, blank ones removed.\<close>

definition eff :: "jstring list \<Rightarrow> jstring list" where
  "eff ls = filter (\<lambda>l. l \<noteq> []) (map trim_js ls)"

text \<open>A string that \<open>trim\<close> leaves as it is.\<close>

definition trimmed :: "jstring \<Rightarrow> bool" where
  "trimmed s \<longleftrightarrow> s = [] \<or> (\<not> isWhiteSpace (hd s) \<and> \<not> isWhiteSpace (last s))"

text \<open>The conversions between the two records of the source.\<close>

definition toPrompt :: "Parsed \<Rightarrow> Prompt" where
  "toPrompt p = \<lparr>prompt_id = p_index p, prompt_text = p_text p\<rparr>"

definition fromPrompt :: "Prompt \<Rightarrow> Parsed" where
  "fromPrompt p = \<lparr>p_index = prompt_id p, p_text = prompt_text p\<rparr>"

text \<open>The state of the specification's machine that stands for \<open>currentPrompt\<close>.\<close>

definition absState :: "Parsed option \<Rightarrow> RefState" where
  "absState cur = (case cur of None \<Rightarrow> NoActivePrompt | Some p \<Rightarrow> BuildingPrompt (p_index p) (p_text p))"

text \<open>A line as the loop sees it: not blank, stripped, without a newline.\<close>

definition okLine :: "jstring \<Rightarrow> bool" where
  "okLine l \<longleftrightarrow> l \<noteq> [] \<and> trim_js l = l \<and> 10 \<notin> set l"

text \<open>A continuation line of a parsed text, and the shape of the texts the parser builds.\<close>

definition contLine :: "jstring \<Rightarrow> bool" where
  "contLine c \<longleftrightarrow> c \<noteq> [] \<and> trim_js c = c \<and> 10 \<notin> set c \<and> matchNumbered c = None"

definition blockOk :: "jstring \<Rightarrow> bool" where
  "blockOk x \<longleftrightarrow>
     (case split_nl x of
        [] \<Rightarrow> False
      | l0 # cs \<Rightarrow> trim_js l0 = l0 \<and> list_all contLine cs)"

definition wfText :: "jstring \<Rightarrow> bool" where
  "wfText t \<longleftrightarrow> blockOk t \<and> trim_js t = t"

text \<open>The first line of a text.\<close>

definition firstLine :: "jstring \<Rightarrow> jstring" where
  "firstLine t = takeWhile (\<lambda>c. c \<noteq> 10) t"

section \<open>Example values\<close>

text \<open>
  An environment in which the first image call succeeds, every later one is refused with a
  message of the safety vocabulary, and the fallback succeeds at the second prompt only.
\<close>

definition exampleFile :: File where
  "exampleFile = \<lparr>file_name = asc ''ref.png'', file_type = asc ''image/png''\<rparr>"

definition exampleEnv :: Env where
  "exampleEnv =
     \<lparr>STABILITY_API_KEY = Some (asc ''key''),
      fileToBase64 = (\<lambda>f. Some \<lparr>data_base64 = Some (asc ''QUJD''), data_mimeType = file_type f\<rparr>),
      styleModel = (\<lambda>d. TextReturned (Some (asc ''moody''))),
      generatePrompts = (\<lambda>s st n. Inr ([asc ''P1'', asc ''P2'', asc ''P3''], asc ''request'')),
      imagen = (\<lambda>i p a. if i = 0 then ImagenReturned [Some (asc ''QQ=='')]
                          else ImagenThrew (Some (asc ''Responsible AI practices''))),
      stabilityFetch = (\<lambda>i p a. if i = 1 then FetchOk (Some (asc ''Qg==''))
                                  else FetchNotOk (Some (asc ''bad request'')))\<rparr>"

definition exampleApp :: App where
  "exampleApp =
     \<lparr>script = asc ''a script'', niche = [], imageStyle = asc ''4k'', aspectRatio = R16_9,
      generatedPrompts = [], generatedImages = [], appState = IDLE, progressMessage = [],
      error = None, promptSource = Script, customPrompts = asc ''hello'', referenceImageFile = None,
      failedPrompts = [], aiRequestPrompt = []\<rparr>"


definition blankStyle :: jstring where
  "blankStyle = [32]"

definition promptA :: Prompt where
  "promptA = \<lparr>prompt_id = 1, prompt_text = asc ''A''\<rparr>"

definition promptP2 :: Prompt where
  "promptP2 = \<lparr>prompt_id = 2, prompt_text = asc ''P2''\<rparr>"

definition promptP3 :: Prompt where
  "promptP3 = \<lparr>prompt_id = 3, prompt_text = asc ''P3''\<rparr>"

text \<open>
  The same environment with a fallback that answers every request with an empty body: the
  data URL of the empty blob has an empty base64 part, and no error is raised.
\<close>

definition silentFallbackEnv :: Env where
  "silentFallbackEnv = exampleEnv\<lparr>stabilityFetch := (\<lambda>i p a. FetchOk (Some []))\<rparr>"

text \<open>Inputs of the custom-prompt field, and the example state in custom mode.\<close>

definition indentedInput :: jstring where
  "indentedInput = asc ''1. A'' @ [10] @ asc '' 2. B''"

definition separatorInput :: jstring where
  "separatorInput = asc ''1.'' @ [10] @ asc ''a'' @ [8232] @ asc ''b''"

definition unorderedInput :: jstring where
  "unorderedInput = asc ''2. B'' @ [10] @ asc ''1. A'' @ [10] @ asc ''  more A''"

definition customApp :: App where
  "customApp = exampleApp\<lparr>promptSource := Custom, customPrompts := asc ''hello''\<rparr>"

definition customAppWithReference :: App where
  "customAppWithReference = customApp\<lparr>referenceImageFile := Some exampleFile\<rparr>"

text \<open>A rendering of the large numbers for the examples, none of which holds one.\<close>

definition plainDigits :: "nat \<Rightarrow> jstring" where
  "plainDigits n = numToString n"

section \<open>Properties of strings and lines\<close>

lemma trim_js_Nil [simp]: "trim_js [] = []"
  by (simp add: trim_js_def)

lemma trim_js_ws_Cons: "isWhiteSpace c \<Longrightarrow> trim_js (c # s) = trim_js s"
  by (simp add: trim_js_def)

lemma trim_js_ws_snoc:
  assumes "isWhiteSpace c"
  shows "trim_js (s @ [c]) = trim_js s"
proof (cases "\<forall>x\<in>set s. isWhiteSpace x")
  case True
  have a: "dropWhile isWhiteSpace (s @ [c]) = []"
    using True assms by (subst dropWhile_eq_Nil_conv) auto
  have b: "dropWhile isWhiteSpace s = []"
    using True by (subst dropWhile_eq_Nil_conv) auto
  show ?thesis
    unfolding trim_js_def a b by simp
next
  case False
  then have "dropWhile isWhiteSpace (s @ [c]) = dropWhile isWhiteSpace s @ [c]"
    by (auto simp: dropWhile_append1)
  then show ?thesis
    using assms by (simp add: trim_js_def)
qed

lemma trim_js_ws_prefix: "\<forall>x\<in>set a. isWhiteSpace x \<Longrightarrow> trim_js (a @ s) = trim_js s"
  by (induction a) (simp_all add: trim_js_ws_Cons)

lemma trim_js_ws_suffix: "\<forall>x\<in>set b. isWhiteSpace x \<Longrightarrow> trim_js (s @ b) = trim_js s"
proof (induction b rule: rev_induct)
  case Nil
  show ?case by simp
next
  case (snoc c b)
  have "trim_js ((s @ b) @ [c]) = trim_js (s @ b)"
    using snoc.prems by (intro trim_js_ws_snoc) simp
  then show ?case
    using snoc by simp
qed

lemma trim_js_trimmed: "trimmed s \<Longrightarrow> trim_js s = s"
proof (cases "s = []")
  case True
  then show ?thesis by simp
next
  case False
  assume "trimmed s"
  with False have h: "\<not> isWhiteSpace (hd s)" and l: "\<not> isWhiteSpace (last s)"
    by (simp_all add: trimmed_def)
  from False h have d: "dropWhile isWhiteSpace s = s"
    by (cases s) simp_all
  from False l have "dropWhile isWhiteSpace (rev s) = rev s"
    by (cases s rule: rev_cases) simp_all
  with d show ?thesis
    by (simp add: trim_js_def)
qed

lemma trimmed_trim_js: "trimmed (trim_js s)"
proof -
  let ?d = "dropWhile isWhiteSpace s"
  let ?e = "dropWhile isWhiteSpace (rev ?d)"
  show ?thesis
  proof (cases "?d = []")
    case True
    have "trim_js s = []"
      unfolding trim_js_def True by simp
    then show ?thesis by (simp add: trimmed_def)
  next
    case False
    then have hd: "\<not> isWhiteSpace (hd ?d)"
      by (rule hd_dropWhile)
    have lastrev: "last (rev ?d) = hd ?d"
      using False by (simp add: last_rev)
    have ne: "?e \<noteq> []"
      using False hd lastrev
      by (metis dropWhile_eq_Nil_conv last_in_set rev_is_Nil_conv)
    then have he: "\<not> isWhiteSpace (hd ?e)"
      by (rule hd_dropWhile)
    obtain p where p: "rev ?d = p @ ?e"
      by (metis takeWhile_dropWhile_id)
    have "last ?e = last (rev ?d)"
      using ne p by (metis last_appendR)
    then have le: "\<not> isWhiteSpace (last ?e)"
      using hd lastrev by simp
    have "hd (rev ?e) = last ?e" "last (rev ?e) = hd ?e"
      using ne by (simp_all add: hd_rev last_rev)
    then show ?thesis
      using ne he le by (simp add: trim_js_def trimmed_def)
  qed
qed

lemma trim_js_idem [simp]: "trim_js (trim_js s) = trim_js s"
  by (rule trim_js_trimmed) (rule trimmed_trim_js)

lemma trim_js_decomp:
  "\<forall>x\<in>set a. isWhiteSpace x \<Longrightarrow> \<forall>x\<in>set b. isWhiteSpace x \<Longrightarrow> trimmed m \<Longrightarrow>
     trim_js (a @ m @ b) = m"
  by (simp add: trim_js_ws_prefix trim_js_trimmed flip: append_assoc)
     (simp add: trim_js_ws_suffix trim_js_ws_prefix trim_js_trimmed)

lemma split_nl_ne [simp]: "split_nl s \<noteq> []"
  by (induction s) (auto split: list.splits)

lemma split_nl_no_nl: "10 \<notin> set s \<Longrightarrow> split_nl s = [s]"
  by (induction s) auto

lemma split_nl_append: "split_nl (xs @ 10 # ys) = split_nl xs @ split_nl ys"
proof (induction xs)
  case Nil
  show ?case by simp
next
  case (Cons x xs)
  obtain l ls where "split_nl xs = l # ls"
    by (cases "split_nl xs") simp_all
  with Cons show ?case
    by simp
qed

lemma split_nl_prepend:
  "10 \<notin> set a \<Longrightarrow> split_nl (a @ s) = (a @ hd (split_nl s)) # tl (split_nl s)"
proof (induction a)
  case Nil
  show ?case by simp
next
  case (Cons x a)
  then show ?case by simp
qed

lemma split_nl_snoc:
  "c \<noteq> 10 \<Longrightarrow> split_nl (s @ [c]) = butlast (split_nl s) @ [last (split_nl s) @ [c]]"
proof (induction s)
  case Nil
  then show ?case by simp
next
  case (Cons x s)
  obtain l ls where ls: "split_nl s = l # ls"
    by (cases "split_nl s") simp_all
  obtain l' ls' where ls': "split_nl (s @ [c]) = l' # ls'"
    by (cases "split_nl (s @ [c])") simp_all
  from Cons ls ls' show ?case
    by (cases ls) (auto split: if_splits)
qed

lemma lines_no_nl: "l \<in> set (split_nl s) \<Longrightarrow> 10 \<notin> set l"
proof (induction s arbitrary: l)
  case Nil
  then show ?case by simp
next
  case (Cons x s)
  obtain l0 ls where ls: "split_nl s = l0 # ls"
    by (cases "split_nl s") simp_all
  with Cons show ?case
    by (auto split: if_splits)
qed

lemma join_split_nl: "join_js [10] (split_nl s) = s"
proof (induction s)
  case Nil
  show ?case by simp
next
  case (Cons x s)
  obtain l ls where ls: "split_nl s = l # ls"
    by (cases "split_nl s") simp_all
  with Cons show ?case
    by (cases ls) auto
qed

lemma matchNumbered_Nil [simp]: "matchNumbered [] = None"
  by (simp add: matchNumbered_def)

lemma eff_Cons:
  "eff (l # ls) = (if trim_js l = [] then eff ls else trim_js l # eff ls)"
  by (simp add: eff_def)

lemma eff_append: "eff (xs @ ys) = eff xs @ eff ys"
  by (simp add: eff_def)

lemma parseLoop_blank:
  "trim_js l = [] \<Longrightarrow> parseLoop (l # ls) cur acc = parseLoop ls cur acc"
  by (simp split: option.splits)

lemma parseLoop_trim:
  "parseLoop (trim_js l # ls) cur acc = parseLoop (l # ls) cur acc"
  by simp

lemma parseLoop_cong_tail:
  "parseLoop ls = parseLoop ls' \<Longrightarrow> parseLoop (l # ls) cur acc = parseLoop (l # ls') cur acc"
  by (simp add: Let_def split: option.splits prod.splits)

lemma parseLoop_eff: "parseLoop (eff ls) cur acc = parseLoop ls cur acc"
proof (induction ls arbitrary: cur acc)
  case Nil
  show ?case by (simp add: eff_def)
next
  case (Cons l ls)
  have tail: "parseLoop (eff ls) = parseLoop ls"
    using Cons.IH by (intro ext)
  show ?case
  proof (cases "trim_js l = []")
    case True
    then show ?thesis
      by (simp add: eff_Cons parseLoop_blank Cons.IH del: parseLoop.simps)
  next
    case False
    have "parseLoop (eff (l # ls)) cur acc = parseLoop (trim_js l # eff ls) cur acc"
      using False by (simp add: eff_Cons)
    also have "\<dots> = parseLoop (l # eff ls) cur acc"
      by (rule parseLoop_trim)
    also have "\<dots> = parseLoop (l # ls) cur acc"
      by (rule parseLoop_cong_tail [OF tail])
    finally show ?thesis .
  qed
qed

lemma eff_split_ws_Cons:
  assumes "isWhiteSpace c"
  shows "eff (split_nl (c # s)) = eff (split_nl s)"
proof (cases "c = 10")
  case True
  then show ?thesis by (simp add: eff_Cons)
next
  case False
  obtain l ls where ls: "split_nl s = l # ls"
    by (cases "split_nl s") simp_all
  show ?thesis
    using False ls assms by (simp add: eff_Cons trim_js_ws_Cons)
qed

lemma eff_split_dropWhile: "eff (split_nl (dropWhile isWhiteSpace s)) = eff (split_nl s)"
  by (induction s) (simp_all add: eff_split_ws_Cons del: split_nl.simps)

lemma eff_split_ws_snoc:
  assumes "isWhiteSpace c"
  shows "eff (split_nl (s @ [c])) = eff (split_nl s)"
proof (cases "c = 10")
  case True
  have "split_nl (s @ [10]) = split_nl s @ [[]]"
    using split_nl_append [of s "[]"] by simp
  then show ?thesis
    using True by (simp add: eff_append eff_Cons) (simp add: eff_def)
next
  case False
  have sn: "split_nl (s @ [c]) = butlast (split_nl s) @ [last (split_nl s) @ [c]]"
    using False by (rule split_nl_snoc)
  have "eff [last (split_nl s) @ [c]] = eff [last (split_nl s)]"
    using assms by (simp add: eff_def trim_js_ws_snoc)
  then have "eff (split_nl (s @ [c])) = eff (butlast (split_nl s) @ [last (split_nl s)])"
    unfolding sn eff_append by simp
  then show ?thesis
    by simp
qed

lemma eff_split_ws_suffix:
  "\<forall>x\<in>set b. isWhiteSpace x \<Longrightarrow> eff (split_nl (s @ b)) = eff (split_nl s)"
proof (induction b rule: rev_induct)
  case Nil
  show ?case by simp
next
  case (snoc c b)
  have "eff (split_nl ((s @ b) @ [c])) = eff (split_nl (s @ b))"
    using snoc.prems by (intro eff_split_ws_snoc) simp
  then show ?case
    using snoc by simp
qed

lemma eff_split_trim: "eff (split_nl (trim_js s)) = eff (split_nl s)"
proof -
  let ?d = "dropWhile isWhiteSpace s"
  have d: "?d = trim_js s @ rev (takeWhile isWhiteSpace (rev ?d))"
    unfolding trim_js_def
    by (metis rev_append rev_rev_ident takeWhile_dropWhile_id)
  have "eff (split_nl ?d) = eff (split_nl (trim_js s))"
    by (subst d, rule eff_split_ws_suffix) (auto dest: set_takeWhileD)
  then show ?thesis
    by (simp add: eff_split_dropWhile)
qed

lemma parsePrompts_lines: "parsePrompts s = parseLoop (split_nl s) None []"
proof -
  have "parsePrompts s = parseLoop (eff (split_nl (trim_js s))) None []"
    by (simp add: parsePrompts_def parseLoop_eff)
  then show ?thesis
    by (simp add: eff_split_trim parseLoop_eff)
qed

section \<open>Properties of the parser\<close>

lemma trim_js_eq_Nil_iff: "trim_js l = [] \<longleftrightarrow> (\<forall>x\<in>set l. isWhiteSpace x)"
proof
  assume "\<forall>x\<in>set l. isWhiteSpace x"
  then show "trim_js l = []"
    using trim_js_ws_prefix [of l "[]"] by simp
next
  assume t: "trim_js l = []"
  have "dropWhile isWhiteSpace l = []"
  proof (rule ccontr)
    assume ne: "dropWhile isWhiteSpace l \<noteq> []"
    then have "\<not> isWhiteSpace (hd (dropWhile isWhiteSpace l))"
      by (rule hd_dropWhile)
    moreover have "hd (dropWhile isWhiteSpace l) \<in> set (rev (dropWhile isWhiteSpace l))"
      using ne by simp
    ultimately have "dropWhile isWhiteSpace (rev (dropWhile isWhiteSpace l)) \<noteq> []"
      by (metis dropWhile_eq_Nil_conv)
    then show False
      using t by (simp add: trim_js_def)
  qed
  then show "\<forall>x\<in>set l. isWhiteSpace x"
    by (metis dropWhile_eq_Nil_conv)
qed

lemma isBlank_iff: "isBlank l \<longleftrightarrow> trim_js l = []"
  by (simp add: isBlank_def trim_js_eq_Nil_iff list_all_iff)

lemma matchNumbered_shape:
  assumes "matchNumbered l = Some (ds, b)"
  shows "\<exists>rest. l = ds @ 46 # rest \<and> b = dropWhile isWhiteSpace rest \<and> ds \<noteq> []
           \<and> (\<forall>c\<in>set ds. isDigit c) \<and> \<not> list_ex isLineTerminator b"
proof -
  let ?ds = "takeWhile isDigit l"
  let ?r = "dropWhile isDigit l"
  from assms obtain rest where r: "?r = 46 # rest" and ds: "?ds = ds" "ds \<noteq> []"
    and b: "b = dropWhile isWhiteSpace rest" and lt: "\<not> list_ex isLineTerminator b"
    by (auto simp: matchNumbered_def Let_def split: if_splits list.splits)
  have "l = ?ds @ ?r"
    by simp
  then have "l = ds @ 46 # rest"
    using r ds by simp
  moreover have "\<forall>c\<in>set ds. isDigit c"
    using ds(1) by (metis set_takeWhileD)
  ultimately show ?thesis
    using b ds(2) lt by blast
qed

lemma matchNumbered_body_trimmed:
  assumes "trim_js l = l" and "matchNumbered l = Some (ds, b)"
  shows "trim_js b = b"
proof (cases "b = []")
  case True
  then show ?thesis by simp
next
  case False
  obtain rest where l: "l = ds @ 46 # rest" and b: "b = dropWhile isWhiteSpace rest"
    using matchNumbered_shape [OF assms(2)] by blast
  have hd: "\<not> isWhiteSpace (hd b)"
    using False unfolding b by (rule hd_dropWhile)
  obtain p where p: "rest = p @ b"
    unfolding b by (metis takeWhile_dropWhile_id)
  have "last l = last b"
    using False unfolding l p by simp
  moreover have "\<not> isWhiteSpace (last l)"
    using trimmed_trim_js [of l] assms(1) l by (simp add: trimmed_def)
  ultimately have "trimmed b"
    using hd by (simp add: trimmed_def)
  then show ?thesis
    by (rule trim_js_trimmed)
qed

lemma toPrompt_pushCurrent:
  "map toPrompt (pushCurrent cur acc) = map toPrompt acc @ flushRef (absState cur)"
  by (cases cur) (simp_all add: pushCurrent_def flushRef_def absState_def toPrompt_def)

lemma refinement_step:
  assumes "\<forall>l\<in>set ls. trim_js l = l"
  shows "map toPrompt (parseLoop ls cur acc) =
           snd (foldl refStep (absState cur, map toPrompt acc) ls)
           @ flushRef (fst (foldl refStep (absState cur, map toPrompt acc) ls))"
  using assms
proof (induction ls arbitrary: cur acc)
  case Nil
  show ?case by (simp add: toPrompt_pushCurrent)
next
  case (Cons l ls)
  have l: "trim_js l = l" and ls: "\<forall>l\<in>set ls. trim_js l = l"
    using Cons.prems by simp_all
  note IH = Cons.IH [OF ls]
  show ?case
  proof (cases "matchNumbered l")
    case (Some m)
    obtain ds b where m: "m = (ds, b)" by (cases m) auto
    have b: "trim_js b = b"
      using matchNumbered_body_trimmed [OF l] Some m by simp
    have st: "absState (Some \<lparr>p_index = parseInt ds, p_text = b\<rparr>) = BuildingPrompt (parseInt ds) b"
      by (simp add: absState_def)
    show ?thesis
      using Some m l b IH [of "Some \<lparr>p_index = parseInt ds, p_text = b\<rparr>" "pushCurrent cur acc"]
      by (simp add: refStep_def toPrompt_pushCurrent st)
  next
    case None
    show ?thesis
    proof (cases cur)
      case cn: None
      show ?thesis
        using None cn l IH [of None acc] by (simp add: refStep_def absState_def)
    next
      case (Some p)
      show ?thesis
      proof (cases "l = []")
        case True
        then show ?thesis
          using None Some IH [of cur acc] by (simp add: refStep_def absState_def isBlank_iff)
      next
        case False
        have "absState (Some (p\<lparr>p_text := p_text p @ 10 # l\<rparr>)) = BuildingPrompt (p_index p) (p_text p @ 10 # l)"
          by (simp add: absState_def)
        then show ?thesis
          using None Some l False IH [of "Some (p\<lparr>p_text := p_text p @ 10 # l\<rparr>)" acc]
          by (simp add: refStep_def absState_def isBlank_iff)
      qed
    qed
  qed
qed

lemma parseLoop_map_trim: "parseLoop (map trim_js ls) cur acc = parseLoop ls cur acc"
proof (induction ls arbitrary: cur acc)
  case Nil
  show ?case by simp
next
  case (Cons l ls)
  have tail: "parseLoop (map trim_js ls) = parseLoop ls"
    using Cons.IH by (intro ext)
  have "parseLoop (map trim_js (l # ls)) cur acc = parseLoop (l # map trim_js ls) cur acc"
    using parseLoop_trim [of l "map trim_js ls" cur acc] by simp
  also have "\<dots> = parseLoop (l # ls) cur acc"
    by (rule parseLoop_cong_tail [OF tail])
  finally show ?case .
qed

lemma toPrompt_insort:
  "map toPrompt (insort_key p_index x xs) = insort_key prompt_id (toPrompt x) (map toPrompt xs)"
  by (induction xs) (simp_all add: toPrompt_def)

lemma toPrompt_sort:
  "map toPrompt (sort_key p_index xs) = sort_key prompt_id (map toPrompt xs)"
  by (induction xs) (simp_all add: toPrompt_insort)

text \<open>
  C3, amended. For every raw input text the parser of the source, followed by its sort,
  returns what the state machine of the specification returns on the lines of the text
  once each line is stripped of leading and trailing white space: a stripped line that
  matches the pattern starts a new prompt whose id is the number that \<open>parseInt\<close>
  returns for the matched digits (the matched number below \<open>2^53\<close>, the nearest double
  from there on), another stripped line that is not blank is appended after a newline to
  the current body, lines before the first numbered line and blank lines are dropped,
  every body is stripped, and the output is ordered by ascending id.
\<close>

theorem parser_refines_stripped_machine:
  "toProcess (parsePrompts raw) = specParserStripped raw"
proof -
  let ?ls = "map trim_js (split_nl raw)"
  have "parsePrompts raw = parseLoop ?ls None []"
    by (simp add: parsePrompts_lines parseLoop_map_trim)
  moreover have "\<forall>l\<in>set ?ls. trim_js l = l"
    by simp
  ultimately have "map toPrompt (parsePrompts raw) =
      snd (foldl refStep (NoActivePrompt, []) ?ls) @ flushRef (fst (foldl refStep (NoActivePrompt, []) ?ls))"
    using refinement_step [of ?ls None "[]"] by (simp add: absState_def)
  then have "sort_key prompt_id (map toPrompt (parsePrompts raw)) = specParserStripped raw"
    by (simp add: specParserStripped_def refMachine_def split_def)
  moreover have "toProcess ps = map toPrompt (sort_key p_index ps)" for ps
    by (simp add: toProcess_def toPrompt_def)
  ultimately show ?thesis
    by (simp add: toPrompt_sort)
qed

lemma no_lt_no_nl: "\<not> list_ex isLineTerminator l \<Longrightarrow> 10 \<notin> set l"
  by (auto simp: list_ex_iff isLineTerminator_def)

lemma join_concat: "join_js [10] (l0 # cs) = l0 @ concat (map ((#) 10) cs)"
  by (induction cs arbitrary: l0) simp_all

lemma split_join_lines:
  "10 \<notin> set a \<Longrightarrow> \<forall>c\<in>set cs. 10 \<notin> set c \<Longrightarrow>
     split_nl (a @ concat (map ((#) 10) cs)) = a # cs"
proof (induction cs arbitrary: a)
  case Nil
  then show ?case by (simp add: split_nl_no_nl)
next
  case (Cons c cs)
  have "split_nl (a @ 10 # (c @ concat (map ((#) 10) cs))) =
          split_nl a @ split_nl (c @ concat (map ((#) 10) cs))"
    by (rule split_nl_append)
  then show ?case
    using Cons by (simp add: split_nl_no_nl)
qed

lemma text_of_lines: "split_nl x = l0 # cs \<Longrightarrow> x = l0 @ concat (map ((#) 10) cs)"
  using join_split_nl [of x] by (simp add: join_concat)

lemma trimmed_nonempty:
  "trim_js l = l \<Longrightarrow> l \<noteq> [] \<Longrightarrow> \<not> isWhiteSpace (hd l) \<and> \<not> isWhiteSpace (last l)"
  using trimmed_trim_js [of l] by (simp add: trimmed_def)

lemma last_lines:
  "cs \<noteq> [] \<Longrightarrow> last cs \<noteq> [] \<Longrightarrow> last (a @ concat (map ((#) 10) cs)) = last (last cs)"
proof (induction cs arbitrary: a)
  case Nil
  then show ?case by simp
next
  case (Cons c cs)
  show ?case
  proof (cases "cs = []")
    case True
    then show ?thesis using Cons.prems by simp
  next
    case False
    then have "last (c @ concat (map ((#) 10) cs)) = last (last cs)"
      using Cons.IH [of c] Cons.prems by simp
    then show ?thesis
      using False by simp
  qed
qed

lemma lines_trimmed:
  assumes "l0 \<noteq> []" and "trim_js l0 = l0" and "list_all contLine cs"
  shows "trim_js (l0 @ concat (map ((#) 10) cs)) = l0 @ concat (map ((#) 10) cs)"
proof (cases "cs = []")
  case True
  then show ?thesis using assms by simp
next
  case False
  let ?x = "l0 @ concat (map ((#) 10) cs)"
  have lc: "contLine (last cs)"
    using False assms(3) by (simp add: list_all_iff)
  then have "last ?x = last (last cs)"
    using False by (intro last_lines) (simp_all add: contLine_def)
  moreover have "\<not> isWhiteSpace (last (last cs))"
    using lc trimmed_nonempty [of "last cs"] by (simp add: contLine_def)
  moreover have "hd ?x = hd l0" "\<not> isWhiteSpace (hd l0)"
    using assms(1,2) trimmed_nonempty [of l0] by simp_all
  ultimately have "trimmed ?x"
    by (simp add: trimmed_def)
  then show ?thesis
    by (rule trim_js_trimmed)
qed

lemma contLine_no_nl: "list_all contLine cs \<Longrightarrow> \<forall>c\<in>set cs. 10 \<notin> set c"
  by (auto simp: list_all_iff contLine_def)

lemma blockOk_lines:
  assumes "trim_js l0 = l0" and "10 \<notin> set l0" and "list_all contLine cs"
  shows "blockOk (l0 @ concat (map ((#) 10) cs))"
  using assms
  by (simp add: blockOk_def split_join_lines contLine_no_nl)

lemma blockOk_trim:
  assumes "blockOk x"
  shows "wfText (trim_js x)"
proof -
  obtain l0 cs where ls: "split_nl x = l0 # cs"
    by (cases "split_nl x") simp_all
  have l0: "trim_js l0 = l0" and cs: "list_all contLine cs"
    using assms ls by (simp_all add: blockOk_def)
  have x: "x = l0 @ concat (map ((#) 10) cs)"
    using ls by (rule text_of_lines)
  show ?thesis
  proof (cases "l0 = []")
    case False
    have "trim_js x = x"
      unfolding x using False l0 cs by (rule lines_trimmed)
    then show ?thesis
      using assms by (simp add: wfText_def)
  next
    case True
    show ?thesis
    proof (cases cs)
      case Nil
      then show ?thesis
        using True x by (simp add: wfText_def blockOk_def)
    next
      case (Cons c cs')
      let ?y = "c @ concat (map ((#) 10) cs')"
      have c: "contLine c" and cs': "list_all contLine cs'"
        using cs Cons by simp_all
      have y: "trim_js ?y = ?y"
        using c cs' by (intro lines_trimmed) (simp_all add: contLine_def)
      have "x = 10 # ?y"
        using x True Cons by simp
      then have "trim_js x = ?y"
        using y by (simp add: trim_js_ws_Cons isWhiteSpace_def)
      moreover have "blockOk ?y"
        using c cs' by (intro blockOk_lines) (simp_all add: contLine_def)
      ultimately show ?thesis
        using y by (simp add: wfText_def)
    qed
  qed
qed

lemma matchNumbered_body_no_lt:
  "matchNumbered l = Some (ds, b) \<Longrightarrow> \<not> list_ex isLineTerminator b"
  using matchNumbered_shape by blast

lemma blockOk_start:
  assumes "trim_js l = l" and "matchNumbered l = Some (ds, b)"
  shows "blockOk b"
proof -
  have "trim_js b = b"
    using assms by (rule matchNumbered_body_trimmed)
  moreover have "10 \<notin> set b"
    using assms(2) by (intro no_lt_no_nl matchNumbered_body_no_lt)
  ultimately show ?thesis
    using blockOk_lines [of b "[]"] by simp
qed

lemma blockOk_continue:
  assumes "blockOk x" and "okLine l" and "matchNumbered l = None"
  shows "blockOk (x @ 10 # l)"
proof -
  obtain l0 cs where ls: "split_nl x = l0 # cs"
    by (cases "split_nl x") simp_all
  have "split_nl (x @ 10 # l) = split_nl x @ [l]"
    using assms(2) by (simp add: split_nl_append split_nl_no_nl okLine_def)
  then show ?thesis
    using assms ls by (simp add: blockOk_def contLine_def okLine_def)
qed

lemma parseLoop_wf:
  assumes "\<forall>l\<in>set ls. okLine l"
    and "\<forall>p. cur = Some p \<longrightarrow> blockOk (p_text p)"
    and "\<forall>q\<in>set acc. wfText (p_text q)"
  shows "\<forall>q\<in>set (parseLoop ls cur acc). wfText (p_text q)"
  using assms
proof (induction ls arbitrary: cur acc)
  case Nil
  then show ?case
    by (cases cur) (auto simp: pushCurrent_def blockOk_trim)
next
  case (Cons l ls)
  have l: "okLine l" and ls: "\<forall>l\<in>set ls. okLine l"
    using Cons.prems(1) by simp_all
  have tl: "trim_js l = l" "l \<noteq> []"
    using l by (simp_all add: okLine_def)
  have pushed: "\<forall>q\<in>set (pushCurrent cur acc). wfText (p_text q)"
    using Cons.prems(2,3) by (cases cur) (auto simp: pushCurrent_def blockOk_trim)
  show ?case
  proof (cases "matchNumbered l")
    case (Some m)
    obtain ds b where m: "m = (ds, b)" by (cases m) auto
    have b: "blockOk b" "trim_js b = b"
      using blockOk_start [OF tl(1)] matchNumbered_body_trimmed [OF tl(1)] Some m by simp_all
    have "\<forall>q\<in>set (parseLoop ls (Some \<lparr>p_index = parseInt ds, p_text = b\<rparr>) (pushCurrent cur acc)).
            wfText (p_text q)"
      using b(1) pushed by (intro Cons.IH [OF ls]) simp_all
    then show ?thesis
      using Some m tl b(2) by simp
  next
    case None
    show ?thesis
    proof (cases cur)
      case cn: None
      have "\<forall>q\<in>set (parseLoop ls None acc). wfText (p_text q)"
        using Cons.prems(3) by (intro Cons.IH [OF ls]) simp_all
      then show ?thesis
        using None cn tl by simp
    next
      case (Some p)
      have "blockOk (p_text p @ 10 # l)"
        using Cons.prems(2) Some l None by (intro blockOk_continue) simp_all
      then have "\<forall>q\<in>set (parseLoop ls (Some (p\<lparr>p_text := p_text p @ 10 # l\<rparr>)) acc). wfText (p_text q)"
        using Cons.prems(3) by (intro Cons.IH [OF ls]) simp_all
      then show ?thesis
        using None Some tl by simp
    qed
  qed
qed

lemma set_trim_js: "set (trim_js l) \<subseteq> set l"
  by (auto simp: trim_js_def dest!: set_dropWhileD)

lemma eff_okLine:
  assumes "\<forall>l\<in>set ls. 10 \<notin> set l"
  shows "\<forall>l\<in>set (eff ls). okLine l"
  using assms set_trim_js by (fastforce simp: eff_def okLine_def)

lemma parsePrompts_wf: "\<forall>q\<in>set (parsePrompts raw). wfText (p_text q)"
proof -
  have "parsePrompts raw = parseLoop (eff (split_nl raw)) None []"
    by (simp add: parsePrompts_lines parseLoop_eff)
  moreover have "\<forall>l\<in>set (eff (split_nl raw)). okLine l"
    using lines_no_nl by (intro eff_okLine) blast
  then have "\<forall>q\<in>set (parseLoop (eff (split_nl raw)) None []). wfText (p_text q)"
    by (intro parseLoop_wf) simp_all
  ultimately show ?thesis by simp
qed

lemma isDigit_numToString: "\<forall>c\<in>set (numToString n). isDigit c"
proof (induction n rule: numToString.induct)
  case (1 n)
  show ?case
  proof (cases "n < 10")
    case True
    then show ?thesis
      by (subst numToString.simps) (simp add: isDigit_def)
  next
    case False
    have "n mod 10 < 10" by simp
    then have "isDigit (48 + n mod 10)"
      unfolding isDigit_def by linarith
    then show ?thesis
      using False "1.IH" by (subst numToString.simps) simp
  qed
qed

lemma numToString_ne [simp]: "numToString n \<noteq> []"
  by (subst numToString.simps) simp

lemma decimalValue_snoc: "decimalValue (ds @ [c]) = 10 * decimalValue ds + (c - 48)"
  by (simp add: decimalValue_def)

lemma decimalValue_numToString: "decimalValue (numToString n) = n"
proof (induction n rule: numToString.induct)
  case (1 n)
  show ?case
  proof (cases "n < 10")
    case True
    then show ?thesis
      by (subst numToString.simps) (simp add: decimalValue_def)
  next
    case False
    then have "decimalValue (numToString (n div 10)) = n div 10"
      using "1.IH" by simp
    then show ?thesis
      using False by (subst numToString.simps) (simp add: decimalValue_snoc)
  qed
qed

lemma exponent_small: "n < 2 ^ 53 \<Longrightarrow> exponent n = 0"
  by (subst exponent.simps) simp

lemma exponent_large: "\<not> n < 2 ^ 53 \<Longrightarrow> exponent n = Suc (exponent (n div 2))"
  by (subst exponent.simps) simp

lemma roundToDouble_small:
  assumes "n < 2 ^ 53"
  shows "roundToDouble n = enat n"
proof -
  have "(2::nat) ^ 53 < 2 ^ 1024"
    by (rule power_strict_increasing) simp_all
  then have "n < 2 ^ 1024"
    using assms by linarith
  then show ?thesis
    using assms by (simp add: roundToDouble_def exponent_small)
qed

lemma parseInt_numToString: "n < 2 ^ 53 \<Longrightarrow> parseInt (numToString n) = enat n"
  by (simp add: parseInt_def decimalValue_numToString roundToDouble_small)

lemma digit_not_ws: "isDigit c \<Longrightarrow> \<not> isWhiteSpace c"
  by (auto simp: isDigit_def isWhiteSpace_def)

lemma digit_not_dot: "isDigit c \<Longrightarrow> c \<noteq> 46"
  by (auto simp: isDigit_def)

lemma digit_not_nl: "isDigit c \<Longrightarrow> c \<noteq> 10"
  by (auto simp: isDigit_def)

lemma matchNumbered_digits:
  assumes "ds \<noteq> []" and "\<forall>c\<in>set ds. isDigit c"
  shows "matchNumbered (ds @ 46 # r) =
           (if list_ex isLineTerminator (dropWhile isWhiteSpace r) then None
            else Some (ds, dropWhile isWhiteSpace r))"
proof -
  have "\<not> isDigit 46"
    by (simp add: isDigit_def)
  then have "takeWhile isDigit (ds @ 46 # r) = ds" "dropWhile isDigit (ds @ 46 # r) = 46 # r"
    using assms(2) by (simp_all add: takeWhile_append2 dropWhile_append2)
  then show ?thesis
    using assms(1) by (simp add: matchNumbered_def Let_def)
qed

lemma trim_first_line:
  assumes "ds \<noteq> []" and "\<forall>c\<in>set ds. isDigit c" and "trim_js l0 = l0"
  shows "trim_js (ds @ 46 # 32 # l0) = (if l0 = [] then ds @ [46] else ds @ 46 # 32 # l0)"
proof -
  have hd: "\<not> isWhiteSpace (hd ds)"
    using assms(1,2) by (simp add: digit_not_ws)
  have dot: "\<not> isWhiteSpace 46" and sp: "isWhiteSpace 32"
    by (simp_all add: isWhiteSpace_def)
  show ?thesis
  proof (cases "l0 = []")
    case True
    have "trimmed (ds @ [46])"
      using assms(1) hd dot by (simp add: trimmed_def)
    then have "trim_js ((ds @ [46]) @ [32]) = ds @ [46]"
      using sp by (simp add: trim_js_ws_snoc trim_js_trimmed del: append_assoc)
    then show ?thesis
      using True by simp
  next
    case False
    have "\<not> isWhiteSpace (last l0)"
      using False assms(3) trimmed_nonempty by blast
    then have "trimmed (ds @ 46 # 32 # l0)"
      using assms(1) hd False by (simp add: trimmed_def)
    then show ?thesis
      using False by (simp add: trim_js_trimmed)
  qed
qed

lemma matchNumbered_first_line:
  assumes "ds \<noteq> []" and "\<forall>c\<in>set ds. isDigit c" and "trim_js l0 = l0"
    and "\<not> list_ex isLineTerminator l0"
  shows "matchNumbered (trim_js (ds @ 46 # 32 # l0)) = Some (ds, l0)"
proof (cases "l0 = []")
  case True
  then show ?thesis
    using assms by (simp add: trim_first_line matchNumbered_digits)
next
  case False
  have sp: "isWhiteSpace 32"
    by (simp add: isWhiteSpace_def)
  have "\<not> isWhiteSpace (hd l0)"
    using False assms(3) trimmed_nonempty by blast
  then have "dropWhile isWhiteSpace (32 # l0) = l0"
    using False sp by (cases l0) simp_all
  then show ?thesis
    using assms False by (simp add: trim_first_line matchNumbered_digits del: dropWhile.simps)
qed

lemma parseLoop_conts:
  "list_all contLine cs \<Longrightarrow>
     parseLoop (cs @ rest) (Some p) acc =
       parseLoop rest (Some (p\<lparr>p_text := p_text p @ concat (map ((#) 10) cs)\<rparr>)) acc"
proof (induction cs arbitrary: p)
  case Nil
  show ?case by simp
next
  case (Cons c cs)
  have cl: "contLine c" and cs: "list_all contLine cs"
    using Cons.prems by simp_all
  have c: "c \<noteq> []" "trim_js c = c" "matchNumbered c = None"
    using cl by (simp_all add: contLine_def)
  have "parseLoop ((c # cs) @ rest) (Some p) acc =
          parseLoop (cs @ rest) (Some (p\<lparr>p_text := p_text p @ 10 # c\<rparr>)) acc"
    using c by simp
  then show ?case
    using Cons.IH [OF cs, of "p\<lparr>p_text := p_text p @ 10 # c\<rparr>"] by simp
qed

lemma hd_split_nl: "hd (split_nl t) = firstLine t"
proof (induction t)
  case Nil
  show ?case by (simp add: firstLine_def)
next
  case (Cons c t)
  obtain l ls where "split_nl t = l # ls"
    by (cases "split_nl t") simp_all
  with Cons show ?case
    by (simp add: firstLine_def)
qed

lemma parseLoop_rendered:
  assumes "wfText (prompt_text p)"
    and "\<not> list_ex isLineTerminator (firstLine (prompt_text p))"
    and "prompt_id p < enat (2 ^ 53)"
  shows "parseLoop (split_nl (renderPrompt large p) @ rest) cur acc =
           parseLoop rest (Some (fromPrompt p)) (pushCurrent cur acc)"
proof -
  obtain n where n: "prompt_id p = enat n" "n < 2 ^ 53"
    using assms(3) by (cases "prompt_id p") simp_all
  let ?N = "numToString n"
  let ?t = "prompt_text p"
  obtain l0 cs where ls: "split_nl ?t = l0 # cs"
    by (cases "split_nl ?t") simp_all
  have l0: "trim_js l0 = l0" and cs: "list_all contLine cs"
    using assms(1) ls by (simp_all add: wfText_def blockOk_def)
  have "l0 = firstLine ?t"
    using hd_split_nl [of ?t] ls by simp
  then have lt: "\<not> list_ex isLineTerminator l0"
    using assms(2) by simp
  have t: "?t = l0 @ concat (map ((#) 10) cs)"
    using ls by (rule text_of_lines)
  have N: "?N \<noteq> []" "\<forall>c\<in>set ?N. isDigit c"
    using isDigit_numToString by simp_all
  have "10 \<notin> set (?N @ [46, 32])"
    using N(2) digit_not_nl by auto
  then have "split_nl ((?N @ [46, 32]) @ ?t) = ((?N @ [46, 32]) @ l0) # cs"
    using ls by (simp add: split_nl_prepend del: append_assoc)
  then have split: "split_nl (renderPrompt large p) = (?N @ 46 # 32 # l0) # cs"
    using n(2) by (simp add: renderPrompt_def numberToString_def n(1) asc_def)
  have m: "matchNumbered (trim_js (?N @ 46 # 32 # l0)) = Some (?N, l0)"
    using N l0 lt by (rule matchNumbered_first_line)
  have "parseLoop (split_nl (renderPrompt large p) @ rest) cur acc =
          parseLoop (cs @ rest) (Some \<lparr>p_index = enat n, p_text = l0\<rparr>) (pushCurrent cur acc)"
    unfolding split using m l0 n(2) by (simp add: parseInt_numToString)
  also have "\<dots> = parseLoop rest (Some \<lparr>p_index = enat n, p_text = ?t\<rparr>) (pushCurrent cur acc)"
    using parseLoop_conts [OF cs, of rest "\<lparr>p_index = enat n, p_text = l0\<rparr>"] t by simp
  finally show ?thesis
    by (simp add: fromPrompt_def n(1))
qed

lemma pushCurrent_wf:
  "wfText (prompt_text p) \<Longrightarrow> pushCurrent (Some (fromPrompt p)) acc = acc @ [fromPrompt p]"
  by (simp add: pushCurrent_def fromPrompt_def wfText_def)

lemma parseLoop_joined:
  assumes "\<forall>p\<in>set ps. wfText (prompt_text p)"
    and "\<forall>p\<in>set ps. \<not> list_ex isLineTerminator (firstLine (prompt_text p))
                      \<and> prompt_id p < enat (2 ^ 53)"
    and "ps \<noteq> []"
  shows "parseLoop (split_nl (join_js [10, 10] (map (renderPrompt large) ps))) cur acc =
           pushCurrent cur acc @ map fromPrompt ps"
  using assms
proof (induction ps arbitrary: cur acc)
  case Nil
  then show ?case by simp
next
  case (Cons p ps)
  have p: "wfText (prompt_text p)"
    using Cons.prems(1) by simp
  have p': "\<not> list_ex isLineTerminator (firstLine (prompt_text p))" "prompt_id p < enat (2 ^ 53)"
    using Cons.prems(2) by simp_all
  note rendered = parseLoop_rendered [OF p p']
  show ?case
  proof (cases ps)
    case Nil
    have "parseLoop (split_nl (renderPrompt large p) @ []) cur acc =
            parseLoop [] (Some (fromPrompt p)) (pushCurrent cur acc)"
      by (rule rendered)
    then show ?thesis
      using Nil p by (simp add: pushCurrent_wf)
  next
    case (Cons q qs)
    let ?rest = "join_js [10, 10] (map (renderPrompt large) ps)"
    have "join_js [10, 10] (map (renderPrompt large) (p # ps)) = renderPrompt large p @ 10 # (10 # ?rest)"
      using Cons by simp
    then have "split_nl (join_js [10, 10] (map (renderPrompt large) (p # ps))) =
                 split_nl (renderPrompt large p) @ ([] # split_nl ?rest)"
      by (simp add: split_nl_append)
    then have "parseLoop (split_nl (join_js [10, 10] (map (renderPrompt large) (p # ps)))) cur acc =
                 parseLoop ([] # split_nl ?rest) (Some (fromPrompt p)) (pushCurrent cur acc)"
      using rendered by simp
    also have "\<dots> = parseLoop (split_nl ?rest) (Some (fromPrompt p)) (pushCurrent cur acc)"
      by (rule parseLoop_blank) simp
    also have "\<dots> = pushCurrent (Some (fromPrompt p)) (pushCurrent cur acc) @ map fromPrompt ps"
      using Cons.prems(1,2) Cons by (intro Cons.IH) simp_all
    finally show ?thesis
      using p by (simp add: pushCurrent_wf)
  qed
qed

lemma fromPrompt_toPrompt [simp]: "fromPrompt (toPrompt q) = q"
  by (simp add: fromPrompt_def toPrompt_def)

lemma toProcess_alt: "toProcess xs = map toPrompt (sort_key p_index xs)"
  by (simp add: toProcess_def toPrompt_def)

text \<open>
  Where the pattern matches every rendered first line, the second parse returns the first
  list: this is so for every input whose parsed texts hold no line terminator in their
  first line, with ids below \<open>2^53\<close>, the range in which the rendering of a number is
  modelled.
\<close>

lemma parse_render_parse:
  assumes "\<forall>p\<in>set (toProcess (parsePrompts raw)).
             \<not> list_ex isLineTerminator (firstLine (prompt_text p))
             \<and> prompt_id p < enat (2 ^ 53)"
  shows "toProcess (parsePrompts (copyText large (toProcess (parsePrompts raw)))) =
           toProcess (parsePrompts raw)"
proof -
  let ?xs = "sort_key p_index (parsePrompts raw)"
  let ?ps = "toProcess (parsePrompts raw)"
  have ps: "?ps = map toPrompt ?xs"
    by (rule toProcess_alt)
  have inverse: "map fromPrompt ?ps = ?xs"
    unfolding ps by (simp add: comp_def)
  have wf: "\<forall>p\<in>set ?ps. wfText (prompt_text p)"
    using parsePrompts_wf [of raw] unfolding ps by (simp add: toPrompt_def)
  show ?thesis
  proof (cases "?ps = []")
    case True
    have "parsePrompts [] = []"
      by (simp add: parsePrompts_def pushCurrent_def)
    then show ?thesis
      using True by (simp add: copyText_def toProcess_def)
  next
    case False
    have "parsePrompts (copyText large ?ps) = map fromPrompt ?ps"
      using parseLoop_joined [OF wf assms False, where cur = None and acc = "[]"]
      by (simp add: parsePrompts_lines copyText_def pushCurrent_def)
    then have "parsePrompts (copyText large ?ps) = ?xs"
      using inverse by simp
    moreover have "sort_key p_index ?xs = ?xs"
      by (rule sort_key_id_if_sorted) simp
    ultimately show ?thesis
      by (simp add: toProcess_alt)
  qed
qed

lemmas parse_defs =
  parsePrompts_def toProcess_def trim_js_def isWhiteSpace_def matchNumbered_def isDigit_def
  isLineTerminator_def pushCurrent_def parseInt_def decimalValue_def roundToDouble_small
  one_enat_def numeral_eq_enat asc_def Let_def

lemma numToString_digit: "n < 10 \<Longrightarrow> numToString n = [48 + n]"
  by (subst numToString.simps) simp

text \<open>
  C3, as stated, fails on an indented numbered line. On the two lines \<open>1. A\<close> and
  \<open> 2. B\<close> the source returns two prompts, since it strips every line before it
  matches it; the machine of the specification, matching the lines as they are, takes the
  second line for a continuation of the first prompt.
\<close>

theorem parser_counterexample:
  "toProcess (parsePrompts indentedInput) =
     [\<lparr>prompt_id = 1, prompt_text = asc ''A''\<rparr>, \<lparr>prompt_id = 2, prompt_text = asc ''B''\<rparr>]
   \<and> specParser indentedInput =
     [\<lparr>prompt_id = 1, prompt_text = asc ''A'' @ [10] @ asc '' 2. B''\<rparr>]
   \<and> toProcess (parsePrompts indentedInput) \<noteq> specParser indentedInput"
proof -
  have a: "toProcess (parsePrompts indentedInput) =
     [\<lparr>prompt_id = 1, prompt_text = asc ''A''\<rparr>, \<lparr>prompt_id = 2, prompt_text = asc ''B''\<rparr>]"
    by (simp add: indentedInput_def parse_defs)
  have b: "specParser indentedInput =
     [\<lparr>prompt_id = 1, prompt_text = asc ''A'' @ [10] @ asc '' 2. B''\<rparr>]"
    by (simp add: indentedInput_def parse_defs specParser_def refMachine_def refStep_def
          flushRef_def isBlank_def)
  show ?thesis
    unfolding a b by simp
qed

theorem parser_refines_witness:
  "specParserStripped unorderedInput =
     [\<lparr>prompt_id = 1, prompt_text = asc ''A'' @ [10] @ asc ''more A''\<rparr>,
      \<lparr>prompt_id = 2, prompt_text = asc ''B''\<rparr>]"
proof -
  have "toProcess (parsePrompts unorderedInput) =
     [\<lparr>prompt_id = 1, prompt_text = asc ''A'' @ [10] @ asc ''more A''\<rparr>,
      \<lparr>prompt_id = 2, prompt_text = asc ''B''\<rparr>]"
    by (simp add: unorderedInput_def parse_defs)
  then show ?thesis
    using parser_refines_stripped_machine [of unorderedInput] by simp
qed

text \<open>
  From \<open>2^53\<close> on the id is the double nearest to the number written: \<open>2^53 + 1\<close>
  is read as \<open>2^53\<close>, and two prompts numbered \<open>2^53 + 1\<close> and \<open>2^53\<close> have the
  same id and stay in the order of the input.
\<close>

lemma parseInt_rounds: "parseInt (asc ''9007199254740993'') = enat 9007199254740992"
  by (simp add: parseInt_def decimalValue_def asc_def roundToDouble_def exponent_large
        exponent_small)

lemma rounded_ids_keep_input_order:
  "toProcess (parsePrompts (asc ''9007199254740993. x'' @ [10] @ asc ''9007199254740992. y'')) =
     [\<lparr>prompt_id = enat 9007199254740992, prompt_text = asc ''x''\<rparr>,
      \<lparr>prompt_id = enat 9007199254740992, prompt_text = asc ''y''\<rparr>]"
  by (simp add: parse_defs roundToDouble_def exponent_large exponent_small)

text \<open>
  C8. The input \<open>1.\<close>, newline, \<open>a\<close> U+2028 \<open>b\<close> parses to the prompt 1 whose body is
  \<open>a\<close> U+2028 \<open>b\<close>. Rendered, it is the single line \<open>1. a\<close> U+2028 \<open>b\<close>, which
  starts with a number and a period; the pattern does not match it, because \<open>.\<close> does
  not cross U+2028 and \<open>$\<close> is the end of the string. The second parse is empty, where
  the first list is expected.
\<close>

theorem reparse_of_rendered_is_empty:
  "toProcess (parsePrompts separatorInput) =
     [\<lparr>prompt_id = 1, prompt_text = asc ''a'' @ [8232] @ asc ''b''\<rparr>]
   \<and> copyText plainDigits (toProcess (parsePrompts separatorInput)) = asc ''1. a'' @ [8232] @ asc ''b''
   \<and> toProcess (parsePrompts (copyText plainDigits (toProcess (parsePrompts separatorInput)))) = []
   \<and> toProcess (parsePrompts (copyText plainDigits (toProcess (parsePrompts separatorInput)))) \<noteq>
       toProcess (parsePrompts separatorInput)"
proof -
  have a: "toProcess (parsePrompts separatorInput) =
     [\<lparr>prompt_id = 1, prompt_text = asc ''a'' @ [8232] @ asc ''b''\<rparr>]"
    by (simp add: separatorInput_def parse_defs)
  have b: "copyText plainDigits [\<lparr>prompt_id = 1, prompt_text = asc ''a'' @ [8232] @ asc ''b''\<rparr>] =
             asc ''1. a'' @ [8232] @ asc ''b''"
    by (simp add: copyText_def renderPrompt_def numberToString_def numToString_digit one_enat_def numeral_eq_enat asc_def)
  have c: "toProcess (parsePrompts (asc ''1. a'' @ [8232] @ asc ''b'')) = []"
    by (simp add: parse_defs)
  show ?thesis
    unfolding a b c by simp
qed

lemma parse_render_parse_example:
  "toProcess (parsePrompts unorderedInput) =
     [\<lparr>prompt_id = 1, prompt_text = asc ''A'' @ [10] @ asc ''more A''\<rparr>,
      \<lparr>prompt_id = 2, prompt_text = asc ''B''\<rparr>]
   \<and> toProcess (parsePrompts (copyText plainDigits (toProcess (parsePrompts unorderedInput)))) =
     [\<lparr>prompt_id = 1, prompt_text = asc ''A'' @ [10] @ asc ''more A''\<rparr>,
      \<lparr>prompt_id = 2, prompt_text = asc ''B''\<rparr>]"
proof -
  have a: "toProcess (parsePrompts unorderedInput) =
     [\<lparr>prompt_id = 1, prompt_text = asc ''A'' @ [10] @ asc ''more A''\<rparr>,
      \<lparr>prompt_id = 2, prompt_text = asc ''B''\<rparr>]"
    by (simp add: unorderedInput_def parse_defs)
  have ok: "\<forall>p\<in>set (toProcess (parsePrompts unorderedInput)).
             \<not> list_ex isLineTerminator (firstLine (prompt_text p))
             \<and> prompt_id p < enat (2 ^ 53)"
    unfolding a by (simp add: firstLine_def isLineTerminator_def asc_def one_enat_def numeral_eq_enat)
  show ?thesis
    using parse_render_parse [OF ok] a by simp
qed

text \<open>
  The text that \<open>downloadPrompts\<close> builds separates the blocks by a line \<open>---\<close>,
  which a second parse takes for a continuation line.
\<close>

lemma download_format_not_reparsed:
  "toProcess (parsePrompts (downloadText plainDigits (toProcess (parsePrompts (asc ''1. A'' @ [10] @ asc ''2. B''))))) =
     [\<lparr>prompt_id = 1, prompt_text = asc ''A'' @ [10] @ asc ''---''\<rparr>,
      \<lparr>prompt_id = 2, prompt_text = asc ''B''\<rparr>]"
proof -
  have a: "toProcess (parsePrompts (asc ''1. A'' @ [10] @ asc ''2. B'')) =
     [\<lparr>prompt_id = 1, prompt_text = asc ''A''\<rparr>, \<lparr>prompt_id = 2, prompt_text = asc ''B''\<rparr>]"
    by (simp add: parse_defs)
  have b: "downloadText plainDigits [\<lparr>prompt_id = 1, prompt_text = asc ''A''\<rparr>, \<lparr>prompt_id = 2, prompt_text = asc ''B''\<rparr>] =
      asc ''1. A'' @ [10, 10] @ asc ''---'' @ [10, 10] @ asc ''2. B''"
    by (simp add: downloadText_def renderPrompt_def numberToString_def numToString_digit one_enat_def numeral_eq_enat asc_def)
  have c: "toProcess (parsePrompts (asc ''1. A'' @ [10, 10] @ asc ''---'' @ [10, 10] @ asc ''2. B'')) =
     [\<lparr>prompt_id = 1, prompt_text = asc ''A'' @ [10] @ asc ''---''\<rparr>,
      \<lparr>prompt_id = 2, prompt_text = asc ''B''\<rparr>]"
    by (simp add: parse_defs)
  show ?thesis
    unfolding a b c by simp
qed

lemma parseLoop_no_match:
  "list_all (\<lambda>l. matchNumbered (trim_js l) = None) ls \<Longrightarrow> parseLoop ls None acc = acc"
  by (induction ls) (simp_all add: pushCurrent_def)

lemma noNumberedLine_parse: "noNumberedLine raw \<Longrightarrow> parsePrompts raw = []"
  by (simp add: noNumberedLine_def parsePrompts_lines parseLoop_no_match)

section \<open>Properties of a run\<close>

lemma asc_Nil_iff [simp]: "asc s = [] \<longleftrightarrow> s = []"
  by (simp add: asc_def)

lemma processPrompt_image:
  "fst (processPrompt env src style ar i p) =
     newImageOf p (fst (generateWithFallback env i (finalPromptOf src style p) ar))
       (fst (snd (generateWithFallback env i (finalPromptOf src style p) ar)))"
  by (simp add: processPrompt_def Let_def split: prod.splits)

lemma processPrompt_calls:
  "snd (snd (processPrompt env src style ar i p)) =
     snd (snd (generateWithFallback env i (finalPromptOf src style p) ar))"
  by (simp add: processPrompt_def Let_def split: prod.splits)

lemma imageLoop_eq:
  "imageLoop env src style ar i ps imgs fs calls =
     (imgs @ map (\<lambda>(k, p). fst (processPrompt env src style ar k p)) (List.enumerate i ps),
      fs @ map snd (filter (\<lambda>(k, p). fst (snd (processPrompt env src style ar k p))) (List.enumerate i ps)),
      calls @ concat (map (\<lambda>(k, p). snd (snd (processPrompt env src style ar k p))) (List.enumerate i ps)))"
proof (induction ps arbitrary: i imgs fs calls)
  case Nil
  show ?case by simp
next
  case (Cons p ps)
  obtain img failed cs where step: "processPrompt env src style ar i p = (img, failed, cs)"
    by (cases "processPrompt env src style ar i p") auto
  show ?case
    by (simp add: step Cons.IH)
qed

lemma newImageOf_id [simp]: "img_id (newImageOf p r e) = prompt_id p"
  by (simp add: newImageOf_def)

lemma newImageOf_prompt [simp]: "img_prompt (newImageOf p r e) = prompt_text p"
  by (simp add: newImageOf_def)

lemma newImageOf_engine [simp]: "img_engine (newImageOf p r e) = Some e"
  by (simp add: newImageOf_def)

lemma newImageOf_terminal:
  "(img_base64 (newImageOf p r e) = None) \<noteq> (img_error (newImageOf p r e) = None)"
  by (auto simp: newImageOf_def truthy_def split: option.splits)


lemma imageStage_state:
  "appState (fst (imageStage env a style ps calls)) = (if ps = [] then IDLE else DONE)"
  by (simp add: imageStage_def Let_def split: prod.splits)

lemma imageStage_prompts:
  "generatedPrompts (fst (imageStage env a style ps calls)) = generatedPrompts a"
  by (simp add: imageStage_def Let_def split: prod.splits)

lemma imageStage_images:
  "ps \<noteq> [] \<Longrightarrow>
   generatedImages (fst (imageStage env a style ps calls)) =
     map (\<lambda>(k, p). fst (processPrompt env (promptSource a) style (aspectRatio a) k p)) (List.enumerate 0 ps)"
  by (simp add: imageStage_def Let_def imageLoop_eq)

lemma imageStage_images_Nil:
  "generatedImages (fst (imageStage env a style [] calls)) = generatedImages a"
  by (simp add: imageStage_def)

lemma startRun_fields [simp]:
  "generatedImages (startRun app) = []"
  "generatedPrompts (startRun app) = []"
  "promptSource (startRun app) = promptSource app"
  "aspectRatio (startRun app) = aspectRatio app"
  by (simp_all add: startRun_def Let_def)

lemma handleGenerate_done:
  assumes "appState (fst (handleGenerate env app)) = DONE"
  shows "\<exists>style. generatedImages (fst (handleGenerate env app)) =
           map (\<lambda>(k, p). fst (processPrompt env (promptSource app) style (aspectRatio app) k p))
             (List.enumerate 0 (generatedPrompts (fst (handleGenerate env app))))"
  using assms
  by (auto simp: handleGenerate_def Let_def abort_def imageStage_state imageStage_prompts
        imageStage_images
      split: prod.splits sum.splits PromptSource.splits if_splits)

lemma imageStage_images_if:
  "generatedImages (fst (imageStage env a style ps calls)) =
     (if ps = [] then generatedImages a
      else map (\<lambda>(k, p). fst (processPrompt env (promptSource a) style (aspectRatio a) k p)) (List.enumerate 0 ps))"
  by (simp add: imageStage_images imageStage_images_Nil)

lemma handleGenerate_images_cases:
  "generatedImages (fst (handleGenerate env app)) = [] \<or>
   (\<exists>style ps. generatedImages (fst (handleGenerate env app)) =
           map (\<lambda>(k, p). fst (processPrompt env (promptSource app) style (aspectRatio app) k p))
             (List.enumerate 0 ps))"
  by (auto simp: handleGenerate_def Let_def abort_def imageStage_images_if
      split: prod.splits sum.splits PromptSource.splits if_splits)

lemma handleGenerate_state:
  "appState (fst (handleGenerate env app)) = IDLE \<or> appState (fst (handleGenerate env app)) = DONE"
  by (auto simp: handleGenerate_def Let_def abort_def imageStage_state
      split: prod.splits sum.splits PromptSource.splits if_splits)

lemma processed_ids:
  "map img_id (map (\<lambda>(k, p). fst (processPrompt env src style ar k p)) (List.enumerate n ps)) =
     map prompt_id ps"
  by (induction ps arbitrary: n) (simp_all add: processPrompt_image)

lemma processed_prompts:
  "map img_prompt (map (\<lambda>(k, p). fst (processPrompt env src style ar k p)) (List.enumerate n ps)) =
     map prompt_text ps"
  by (induction ps arbitrary: n) (simp_all add: processPrompt_image)

lemma processed_terminal:
  "img \<in> set (map (\<lambda>(k, p). fst (processPrompt env src style ar k p)) (List.enumerate n ps)) \<Longrightarrow>
     (img_base64 img = None) \<noteq> (img_error img = None)"
  using newImageOf_terminal by (auto simp: processPrompt_image)

lemma processed_engine:
  "img \<in> set (map (\<lambda>(k, p). fst (processPrompt env src style ar k p)) (List.enumerate n ps)) \<Longrightarrow>
     img_engine img \<noteq> None"
  by (auto simp: processPrompt_image)

lemmas run_defs =
  handleGenerate_def startRun_def abort_def styleStage_def analyzeImageStyle_def imageStage_def
  processPrompt_def finalPromptOf_def generateWithFallback_def safetyBlocked_def enrich_def
  generateImage_def generateImageWithStability_def errorMessageOf_def newImageOf_def orElse_def
  truthy_def trim_js_def isWhiteSpace_def one_enat_def numeral_eq_enat asc_def Let_def

text \<open>
  C2. When a run ends in \<open>DONE\<close>, the list of generated images has one entry per
  prompt given to the image stage, with the ids and the prompt texts in the order of the
  prompt list, and every entry is terminal: it has an image or an error, never both and
  never neither. Nothing is assumed about the providers, so any number of the
  generations may have failed.
\<close>

theorem done_one_result_per_prompt:
  assumes "handleGenerate env app = (app', calls)" and "appState app' = DONE"
  shows "length (generatedImages app') = length (generatedPrompts app')
         \<and> map img_id (generatedImages app') = map prompt_id (generatedPrompts app')
         \<and> map img_prompt (generatedImages app') = map prompt_text (generatedPrompts app')
         \<and> (\<forall>img \<in> set (generatedImages app').
               (img_base64 img = None) \<noteq> (img_error img = None))
         \<and> generatedPrompts app' \<noteq> []"
proof -
  have app': "app' = fst (handleGenerate env app)"
    using assms(1) by simp
  obtain style where imgs:
    "generatedImages app' =
       map (\<lambda>(k, p). fst (processPrompt env (promptSource app) style (aspectRatio app) k p))
         (List.enumerate 0 (generatedPrompts app'))"
    using handleGenerate_done [of env app] assms(2) unfolding app' by blast
  have ne: "generatedPrompts app' \<noteq> []"
    using assms(2) unfolding app'
    by (auto simp: handleGenerate_def Let_def abort_def imageStage_state imageStage_prompts
        split: prod.splits sum.splits PromptSource.splits if_splits)
  have len: "length (generatedImages app') = length (generatedPrompts app')"
    unfolding imgs by simp
  have ids: "map img_id (generatedImages app') = map prompt_id (generatedPrompts app')"
    unfolding imgs by (rule processed_ids)
  have prompts: "map img_prompt (generatedImages app') = map prompt_text (generatedPrompts app')"
    unfolding imgs by (rule processed_prompts)
  have terminal: "\<forall>img \<in> set (generatedImages app'). (img_base64 img = None) \<noteq> (img_error img = None)"
    unfolding imgs by (intro ballI, erule processed_terminal)
  show ?thesis
    using len ids prompts terminal ne by blast
qed

theorem done_one_result_per_prompt_witness:
  "appState (fst (handleGenerate exampleEnv exampleApp)) = DONE
   \<and> map img_id (generatedImages (fst (handleGenerate exampleEnv exampleApp))) = [1, 2, 3]
   \<and> map prompt_id (generatedPrompts (fst (handleGenerate exampleEnv exampleApp))) = [1, 2, 3]
   \<and> map img_error (generatedImages (fst (handleGenerate exampleEnv exampleApp))) \<noteq> [None, None, None]"
proof -
  have run: "handleGenerate exampleEnv exampleApp =
               (fst (handleGenerate exampleEnv exampleApp), snd (handleGenerate exampleEnv exampleApp))"
    by simp
  have st: "appState (fst (handleGenerate exampleEnv exampleApp)) = DONE"
    by (simp add: handleGenerate_def Let_def exampleEnv_def exampleApp_def styleStage_def
          imageStage_state trim_js_def isWhiteSpace_def asc_def)
  have ps: "map prompt_id (generatedPrompts (fst (handleGenerate exampleEnv exampleApp))) = [1, 2, 3]"
    by (simp add: handleGenerate_def Let_def exampleEnv_def exampleApp_def styleStage_def
          imageStage_prompts trim_js_def isWhiteSpace_def one_enat_def numeral_eq_enat asc_def)
  have err: "img_error (generatedImages (fst (handleGenerate exampleEnv exampleApp)) ! 2) \<noteq> None"
    by (simp add: exampleEnv_def exampleApp_def run_defs)
  show ?thesis
    using done_one_result_per_prompt [OF run st] st ps err by auto
qed


lemma enrich_error:
  "res_error r = Some e \<Longrightarrow> e \<noteq> [] \<Longrightarrow>
     res_error (enrich r) = Some (asc ''Google blocked prompt. Stability AI also failed: '' @ e)
     \<and> res_base64 (enrich r) = res_base64 r"
  by (simp add: enrich_def)

lemma stability_error_shape:
  "res_error (generateImageWithStability k out) = Some e \<Longrightarrow>
     e \<noteq> [] \<and> res_base64 (generateImageWithStability k out) = None"
  by (auto simp: generateImageWithStability_def Let_def asc_def split: if_splits FetchOutcome.splits)

lemma generateWithFallback_result:
  "fst (generateWithFallback env i fp ar) =
     (if safetyBlocked (generateImage (imagen env i fp ar)) \<and> truthy (STABILITY_API_KEY env)
      then enrich (generateImageWithStability (STABILITY_API_KEY env) (stabilityFetch env i fp ar))
      else generateImage (imagen env i fp ar))"
  by (simp add: generateWithFallback_def Let_def)

lemma generateWithFallback_engine:
  "fst (snd (generateWithFallback env i fp ar)) =
     (if safetyBlocked (generateImage (imagen env i fp ar)) \<and> truthy (STABILITY_API_KEY env)
      then Stability else Google)"
  by (simp add: generateWithFallback_def Let_def)

lemma generateWithFallback_calls:
  "snd (snd (generateWithFallback env i fp ar)) =
     GoogleImageCall fp ar #
       (if safetyBlocked (generateImage (imagen env i fp ar)) \<and> truthy (STABILITY_API_KEY env)
        then [StabilityImageCall fp ar] else [])"
  by (simp add: generateWithFallback_def Let_def)

lemma blocked_notice_includes:
  "includes_js (asc ''This prompt was blocked for safety reasons. Please try rephrasing it.'')
     (asc ''safety reasons'')"
  by (simp add: asc_def)

lemma other_notices_exclude:
  "\<not> includes_js (asc ''Image generation failed.'') (asc ''safety reasons'')"
  "\<not> includes_js (asc ''The API did not return an image.'') (asc ''safety reasons'')"
  by (simp_all add: asc_def)

lemma safetyBlocked_iff:
  "safetyBlocked r \<longleftrightarrow> (\<exists>e. res_error r = Some e \<and> includes_js e (asc ''safety reasons''))"
  by (cases "res_error r") (auto simp: safetyBlocked_def asc_def)

lemma safetyBlocked_generateImage:
  "safetyBlocked (generateImage out) \<longleftrightarrow>
     (\<exists>m. out = ImagenThrew m \<and>
        (includes_js (errorMessageOf m) (asc ''sensitive words'')
         \<or> includes_js (errorMessageOf m) (asc ''Responsible AI practices'')
         \<or> includes_js (errorMessageOf m) (asc ''prompt contains sensitive words'')))"
proof (cases out)
  case (ImagenThrew m)
  then show ?thesis
    using blocked_notice_includes other_notices_exclude(1)
    by (auto simp: safetyBlocked_def generateImage_def Let_def)
next
  case (ImagenReturned imgs)
  then show ?thesis
    using other_notices_exclude(2)
    by (cases imgs) (auto simp: safetyBlocked_def generateImage_def)
qed

lemma generateImage_success:
  "res_error (generateImage out) = None \<or> truthy (res_base64 (generateImage out)) \<Longrightarrow>
     \<not> safetyBlocked (generateImage out)"
  by (auto simp: generateImage_def Let_def truthy_def safetyBlocked_def
      split: ImagenOutcome.splits list.splits if_splits)

text \<open>
  C1. For a prompt of the image stage, with \<open>fp\<close> the text sent for it: the calls are
  the primary call and, exactly when the primary result carries an error message that
  contains the signature \<open>safety reasons\<close> and the key of the secondary provider is
  configured, one secondary call with the same text and aspect ratio. After a failed
  primary attempt the secondary provider is invoked if and only if both conditions
  hold; after a successful one it is never invoked. The primary result carries the
  signature exactly when the primary service threw a message of its safety vocabulary.
\<close>

theorem fallback_policy:
  "let fp = finalPromptOf src style p;
       primary = generateImage (imagen env i fp ar);
       calls = snd (snd (processPrompt env src style ar i p));
       blocked = (\<exists>e. res_error primary = Some e \<and> includes_js e (asc ''safety reasons''))
   in calls = GoogleImageCall fp ar #
                (if blocked \<and> truthy (STABILITY_API_KEY env) then [StabilityImageCall fp ar] else [])
      \<and> (res_error primary \<noteq> None \<longrightarrow>
            ((\<exists>q a. StabilityImageCall q a \<in> set calls) \<longleftrightarrow>
               blocked \<and> truthy (STABILITY_API_KEY env)))
      \<and> (\<forall>q a. StabilityImageCall q a \<in> set calls \<longrightarrow> q = fp \<and> a = ar)
      \<and> (res_error primary = None \<or> truthy (res_base64 primary) \<longrightarrow>
            (\<forall>q a. StabilityImageCall q a \<notin> set calls))
      \<and> (blocked \<longleftrightarrow>
            (\<exists>m. imagen env i fp ar = ImagenThrew m \<and>
               (includes_js (errorMessageOf m) (asc ''sensitive words'')
                \<or> includes_js (errorMessageOf m) (asc ''Responsible AI practices'')
                \<or> includes_js (errorMessageOf m) (asc ''prompt contains sensitive words''))))"
proof -
  let ?fp = "finalPromptOf src style p"
  let ?primary = "generateImage (imagen env i ?fp ar)"
  have succ: "res_error ?primary = None \<or> truthy (res_base64 ?primary) \<Longrightarrow> \<not> safetyBlocked ?primary"
    by (rule generateImage_success)
  have raw: "safetyBlocked ?primary \<longleftrightarrow>
            (\<exists>m. imagen env i ?fp ar = ImagenThrew m \<and>
               (includes_js (errorMessageOf m) (asc ''sensitive words'')
                \<or> includes_js (errorMessageOf m) (asc ''Responsible AI practices'')
                \<or> includes_js (errorMessageOf m) (asc ''prompt contains sensitive words'')))"
    by (rule safetyBlocked_generateImage)
  show ?thesis
    unfolding Let_def processPrompt_calls generateWithFallback_calls safetyBlocked_iff [symmetric]
    using succ raw by auto
qed

theorem fallback_policy_witness:
  "snd (snd (processPrompt exampleEnv Script (asc ''4k'') R16_9 1 \<lparr>prompt_id = 2, prompt_text = asc ''P2''\<rparr>)) =
     [GoogleImageCall (asc ''P2'') R16_9, StabilityImageCall (asc ''P2'') R16_9]
   \<and> res_error (generateImage (imagen exampleEnv 1 (asc ''P2'') R16_9)) =
       Some (asc ''This prompt was blocked for safety reasons. Please try rephrasing it.'')
   \<and> snd (snd (processPrompt exampleEnv Script (asc ''4k'') R16_9 0 \<lparr>prompt_id = 1, prompt_text = asc ''P1''\<rparr>)) =
     [GoogleImageCall (asc ''P1'') R16_9]
   \<and> res_error (generateImage (imagen exampleEnv 0 (asc ''P1'') R16_9)) = None"
proof -
  have fp: "finalPromptOf Script (asc ''4k'') \<lparr>prompt_id = 2, prompt_text = asc ''P2''\<rparr> = asc ''P2''"
           "finalPromptOf Script (asc ''4k'') \<lparr>prompt_id = 1, prompt_text = asc ''P1''\<rparr> = asc ''P1''"
    by (simp_all add: finalPromptOf_def)
  have e1: "res_error (generateImage (imagen exampleEnv 1 (asc ''P2'') R16_9)) =
       Some (asc ''This prompt was blocked for safety reasons. Please try rephrasing it.'')"
    by (simp add: exampleEnv_def run_defs)
  have e0: "res_error (generateImage (imagen exampleEnv 0 (asc ''P1'') R16_9)) = None"
    by (simp add: exampleEnv_def run_defs)
  have key: "truthy (STABILITY_API_KEY exampleEnv)"
    by (simp add: exampleEnv_def truthy_def asc_def)
  have c1: "snd (snd (processPrompt exampleEnv Script (asc ''4k'') R16_9 1 \<lparr>prompt_id = 2, prompt_text = asc ''P2''\<rparr>)) =
     [GoogleImageCall (asc ''P2'') R16_9, StabilityImageCall (asc ''P2'') R16_9]"
    using fallback_policy [of Script "asc ''4k''" "\<lparr>prompt_id = 2, prompt_text = asc ''P2''\<rparr>" exampleEnv 1 R16_9]
      blocked_notice_includes key
    unfolding Let_def fp e1 by simp
  have c0: "snd (snd (processPrompt exampleEnv Script (asc ''4k'') R16_9 0 \<lparr>prompt_id = 1, prompt_text = asc ''P1''\<rparr>)) =
     [GoogleImageCall (asc ''P1'') R16_9]"
    using fallback_policy [of Script "asc ''4k''" "\<lparr>prompt_id = 1, prompt_text = asc ''P1''\<rparr>" exampleEnv 0 R16_9]
    unfolding Let_def fp e0 by simp
  show ?thesis
    using c1 e1 c0 e0 by (intro conjI)
qed

text \<open>
  C7, as stated, fails for a fallback that fails without an error. The primary attempt for
  the second prompt is safety-blocked and the secondary provider is configured; its answer
  has an empty body, so that the result has neither an image nor an error. The result
  recorded for the prompt has no image, the engine \<open>Stability\<close> and the error
  \<open>Failed to generate image.\<close>, which is not the concatenation.
\<close>

theorem both_providers_failed_counterexample:
  "safetyBlocked (generateImage (imagen silentFallbackEnv 1 (asc ''P2'') R16_9))
   \<and> truthy (STABILITY_API_KEY silentFallbackEnv)
   \<and> generateImageWithStability (STABILITY_API_KEY silentFallbackEnv)
         (stabilityFetch silentFallbackEnv 1 (asc ''P2'') R16_9)
       = \<lparr>res_base64 = Some [], res_error = None\<rparr>
   \<and> img_base64 (fst (processPrompt silentFallbackEnv Script (asc ''4k'') R16_9 1 promptP2)) = None
   \<and> img_engine (fst (processPrompt silentFallbackEnv Script (asc ''4k'') R16_9 1 promptP2)) = Some Stability
   \<and> img_error (fst (processPrompt silentFallbackEnv Script (asc ''4k'') R16_9 1 promptP2)) =
       Some (asc ''Failed to generate image.'')
   \<and> \<not> startsWith_js (asc ''Failed to generate image.'')
         (asc ''Google blocked prompt. Stability AI also failed: '')"
  by (simp add: silentFallbackEnv_def promptP2_def exampleEnv_def run_defs)

text \<open>
  C7, amended. When the primary attempt for a prompt was safety-blocked, the secondary
  provider is configured and its attempt gives no image, the result recorded for the
  prompt has no image, and its error is \<open>Google blocked prompt. Stability AI also failed: \<close>
  followed by the error of the secondary attempt when that attempt reports one, and
  \<open>Failed to generate image.\<close> when it reports none.
\<close>

theorem both_providers_failed_message:
  assumes "fp = finalPromptOf src style p"
    and "safetyBlocked (generateImage (imagen env i fp ar))"
    and "truthy (STABILITY_API_KEY env)"
    and "\<not> truthy (res_base64 (generateImageWithStability (STABILITY_API_KEY env)
                                 (stabilityFetch env i fp ar)))"
  shows "img_error (fst (processPrompt env src style ar i p)) =
           Some (case res_error (generateImageWithStability (STABILITY_API_KEY env)
                                   (stabilityFetch env i fp ar)) of
                   Some e \<Rightarrow> asc ''Google blocked prompt. Stability AI also failed: '' @ e
                 | None \<Rightarrow> asc ''Failed to generate image.'')
         \<and> img_base64 (fst (processPrompt env src style ar i p)) = None"
proof -
  let ?r2 = "generateImageWithStability (STABILITY_API_KEY env) (stabilityFetch env i fp ar)"
  have res: "fst (generateWithFallback env i fp ar) = enrich ?r2"
    using assms(2,3) by (simp add: generateWithFallback_result)
  show ?thesis
  proof (cases "res_error ?r2")
    case None
    then have "enrich ?r2 = ?r2"
      by (simp add: enrich_def)
    then show ?thesis
      unfolding processPrompt_image assms(1) [symmetric] res
      using None assms(4) by (simp add: newImageOf_def orElse_def)
  next
    case (Some e)
    have shape: "e \<noteq> []" "res_base64 ?r2 = None"
      using stability_error_shape [OF Some] by simp_all
    have "res_error (enrich ?r2) = Some (asc ''Google blocked prompt. Stability AI also failed: '' @ e)"
         "res_base64 (enrich ?r2) = None"
      using enrich_error [OF Some shape(1)] shape(2) by simp_all
    then show ?thesis
      unfolding processPrompt_image assms(1) [symmetric] res
      using Some by (simp add: newImageOf_def truthy_def orElse_def)
  qed
qed

theorem both_providers_failed_message_witness:
  "safetyBlocked (generateImage (imagen exampleEnv 2 (asc ''P3'') R16_9))
   \<and> truthy (STABILITY_API_KEY exampleEnv)
   \<and> generateImageWithStability (STABILITY_API_KEY exampleEnv) (stabilityFetch exampleEnv 2 (asc ''P3'') R16_9)
       = \<lparr>res_base64 = None, res_error = Some (asc ''Stability AI Error: bad request'')\<rparr>
   \<and> img_error (fst (processPrompt exampleEnv Script (asc ''4k'') R16_9 2 promptP3)) =
        Some (asc ''Google blocked prompt. Stability AI also failed: Stability AI Error: bad request'')
   \<and> img_base64 (fst (processPrompt exampleEnv Script (asc ''4k'') R16_9 2 promptP3)) = None"
proof -
  have fp: "asc ''P3'' = finalPromptOf Script (asc ''4k'') promptP3"
    by (simp add: finalPromptOf_def promptP3_def)
  have blocked: "safetyBlocked (generateImage (imagen exampleEnv 2 (asc ''P3'') R16_9))"
    by (simp add: exampleEnv_def run_defs)
  have key: "truthy (STABILITY_API_KEY exampleEnv)"
    by (simp add: exampleEnv_def run_defs)
  have r2: "generateImageWithStability (STABILITY_API_KEY exampleEnv) (stabilityFetch exampleEnv 2 (asc ''P3'') R16_9)
       = \<lparr>res_base64 = None, res_error = Some (asc ''Stability AI Error: bad request'')\<rparr>"
    by (simp add: exampleEnv_def run_defs)
  have failed: "\<not> truthy (res_base64 (generateImageWithStability (STABILITY_API_KEY exampleEnv)
                                 (stabilityFetch exampleEnv 2 (asc ''P3'') R16_9)))"
    unfolding r2 by (simp add: truthy_def)
  have msg: "asc ''Google blocked prompt. Stability AI also failed: '' @ asc ''Stability AI Error: bad request'' =
             asc ''Google blocked prompt. Stability AI also failed: Stability AI Error: bad request''"
    by (simp add: asc_def)
  show ?thesis
    using both_providers_failed_message [OF fp blocked key failed] blocked key
    unfolding r2 by (simp add: msg)
qed

text \<open>
  C10. The result of every prompt carries an engine tag: \<open>Stability\<close> when the fallback
  was attempted for it, \<open>Google\<close> otherwise, whether or not the result holds an image;
  and no entry of the image list of any run lacks the tag.
\<close>

theorem engine_tag_always_present:
  "img_engine (fst (processPrompt env src style ar i p)) =
     Some (if (\<exists>q a. StabilityImageCall q a \<in> set (snd (snd (processPrompt env src style ar i p))))
           then Stability else Google)
   \<and> (\<forall>img \<in> set (generatedImages (fst (handleGenerate env app))). img_engine img \<noteq> None)"
proof -
  have one: "img_engine (fst (processPrompt env src style ar i p)) =
     Some (if (\<exists>q a. StabilityImageCall q a \<in> set (snd (snd (processPrompt env src style ar i p))))
           then Stability else Google)"
    by (simp add: processPrompt_image processPrompt_calls generateWithFallback_engine
          generateWithFallback_calls)
  have all: "\<forall>img \<in> set (generatedImages (fst (handleGenerate env app))). img_engine img \<noteq> None"
    using handleGenerate_images_cases [of env app] processed_engine by fastforce
  show ?thesis using one all by blast
qed

theorem engine_tag_always_present_witness:
  "map img_engine (generatedImages (fst (handleGenerate exampleEnv exampleApp))) =
     [Some Google, Some Stability, Some Stability]
   \<and> map img_error (generatedImages (fst (handleGenerate exampleEnv exampleApp))) \<noteq> [None, None, None]"
proof -
  have imgs: "map img_engine (generatedImages (fst (handleGenerate exampleEnv exampleApp))) =
     [Some Google, Some Stability, Some Stability]"
    by (simp add: exampleEnv_def exampleApp_def run_defs)
  have err: "img_error (generatedImages (fst (handleGenerate exampleEnv exampleApp)) ! 2) \<noteq> None"
    by (simp add: exampleEnv_def exampleApp_def run_defs)
  show ?thesis
    using engine_tag_always_present [of exampleEnv Script "asc ''4k''" R16_9 0
            "\<lparr>prompt_id = 1, prompt_text = asc ''P1''\<rparr>" exampleApp] imgs err
    by auto
qed

text \<open>
  C9, as stated, fails for a style that is not empty but blank: with the style \<open>" "\<close>
  in custom mode the text sent is the parsed text alone.
\<close>

theorem styled_prompt_counterexample:
  "blankStyle \<noteq> []
   \<and> snd (snd (processPrompt exampleEnv Custom blankStyle R16_9 0 promptA)) =
       [GoogleImageCall (asc ''A'') R16_9]
   \<and> asc ''A'' \<noteq> prompt_text promptA @ asc '', '' @ blankStyle"
  by (simp add: blankStyle_def promptA_def exampleEnv_def run_defs)

text \<open>
  C9, amended. In custom mode, when the effective style holds a character that is not
  white space, every image call for a prompt sends the parsed text, a comma and a space,
  and the style; in script mode, and in custom mode with a blank style, the prompt text is
  sent unchanged. The prompt recorded on the result is always the text without the style.
\<close>

theorem styled_prompt_sent:
  "let sent = (if src = Custom \<and> trim_js style \<noteq> [] then prompt_text p @ asc '', '' @ style
               else prompt_text p);
       calls = snd (snd (processPrompt env src style ar i p))
   in GoogleImageCall sent ar \<in> set calls
      \<and> (\<forall>c \<in> set calls. c = GoogleImageCall sent ar \<or> c = StabilityImageCall sent ar)
      \<and> img_prompt (fst (processPrompt env src style ar i p)) = prompt_text p"
  by (simp add: processPrompt_image processPrompt_calls generateWithFallback_calls
        finalPromptOf_def Let_def)

theorem styled_prompt_sent_witness:
  "snd (snd (processPrompt exampleEnv Custom (asc ''4k'') R16_9 2 promptA)) =
     [GoogleImageCall (asc ''A, 4k'') R16_9, StabilityImageCall (asc ''A, 4k'') R16_9]
   \<and> img_prompt (fst (processPrompt exampleEnv Custom (asc ''4k'') R16_9 2 promptA)) = asc ''A''
   \<and> snd (snd (processPrompt exampleEnv Script (asc ''4k'') R16_9 2 promptA)) =
     [GoogleImageCall (asc ''A'') R16_9, StabilityImageCall (asc ''A'') R16_9]"
proof -
  have calls: "snd (snd (processPrompt exampleEnv Custom (asc ''4k'') R16_9 2 promptA)) =
     [GoogleImageCall (asc ''A, 4k'') R16_9, StabilityImageCall (asc ''A, 4k'') R16_9]"
    by (simp add: promptA_def exampleEnv_def run_defs)
  have calls2: "snd (snd (processPrompt exampleEnv Script (asc ''4k'') R16_9 2 promptA)) =
     [GoogleImageCall (asc ''A'') R16_9, StabilityImageCall (asc ''A'') R16_9]"
    by (simp add: promptA_def exampleEnv_def run_defs)
  have recorded: "img_prompt (fst (processPrompt exampleEnv Custom (asc ''4k'') R16_9 2 promptA)) =
      prompt_text promptA"
    using styled_prompt_sent [of Custom "asc ''4k''" promptA exampleEnv R16_9 2]
    unfolding Let_def by (elim conjE)
  have a: "prompt_text promptA = asc ''A''"
    by (simp add: promptA_def)
  show ?thesis
    using recorded calls calls2 unfolding a by (intro conjI)
qed

text \<open>
  C5, as stated, fails when a half is absent: with a reference image whose derived style is
  \<open>moody\<close> and empty user keywords, the descriptor is \<open>"moody, "\<close>, separator
  included, not \<open>"moody"\<close>.
\<close>

theorem effective_style_counterexample:
  "fst (styleStage exampleEnv [] (Some exampleFile)) = Inr (asc ''moody, '')
   \<and> asc ''moody, '' \<noteq> asc ''moody''"
  by (simp add: exampleEnv_def exampleFile_def run_defs)

text \<open>
  C5, amended. Without a reference image the effective style is exactly the user's
  keywords. With a reference image whose analysis succeeds it is the derived style, a
  comma and a space, and the user's keywords, whether or not either half is empty.
\<close>

theorem effective_style:
  "fst (styleStage env keywords None) = Inr keywords
   \<and> (fileToBase64 env f = Some imageData \<longrightarrow>
        analyzeImageStyle (styleModel env imageData) = Inr derived \<longrightarrow>
        fst (styleStage env keywords (Some f)) = Inr (derived @ asc '', '' @ keywords))"
  by (simp add: styleStage_def)

theorem effective_style_witness:
  "fileToBase64 exampleEnv exampleFile =
     Some \<lparr>data_base64 = Some (asc ''QUJD''), data_mimeType = asc ''image/png''\<rparr>
   \<and> analyzeImageStyle (styleModel exampleEnv
         \<lparr>data_base64 = Some (asc ''QUJD''), data_mimeType = asc ''image/png''\<rparr>) = Inr (asc ''moody'')
   \<and> fst (styleStage exampleEnv (asc ''4k'') (Some exampleFile)) = Inr (asc ''moody, 4k'')"
proof -
  have f: "fileToBase64 exampleEnv exampleFile =
     Some \<lparr>data_base64 = Some (asc ''QUJD''), data_mimeType = asc ''image/png''\<rparr>"
    by (simp add: exampleEnv_def exampleFile_def)
  have a: "analyzeImageStyle (styleModel exampleEnv
         \<lparr>data_base64 = Some (asc ''QUJD''), data_mimeType = asc ''image/png''\<rparr>) = Inr (asc ''moody'')"
    by (simp add: exampleEnv_def run_defs)
  show ?thesis
    using effective_style [of exampleEnv "asc ''4k''" exampleFile _ "asc ''moody''"] f a
    by (simp add: asc_def)
qed

text \<open>
  C6. While the state is \<open>GENERATING_PROMPTS\<close> or \<open>GENERATING_IMAGES\<close> a click on the
  Generate button starts no run; a click that starts a run finds the state \<open>IDLE\<close> or
  \<open>DONE\<close>.
\<close>

theorem run_rejected_while_loading:
  "(appState app = GENERATING_PROMPTS \<or> appState app = GENERATING_IMAGES \<longrightarrow>
      clickGenerate env app = None)
   \<and> (clickGenerate env app \<noteq> None \<longrightarrow> appState app = IDLE \<or> appState app = DONE)"
  by (cases "appState app") (simp_all add: clickGenerate_def generateDisabled_def isLoading_def)

theorem run_rejected_while_loading_witness:
  "clickGenerate exampleEnv (exampleApp\<lparr>appState := GENERATING_IMAGES\<rparr>) = None
   \<and> clickGenerate exampleEnv (exampleApp\<lparr>appState := GENERATING_PROMPTS\<rparr>) = None
   \<and> clickGenerate exampleEnv exampleApp \<noteq> None
   \<and> appState exampleApp = IDLE"
proof -
  have idle: "appState exampleApp = IDLE"
    by (simp add: exampleApp_def)
  have click: "clickGenerate exampleEnv exampleApp \<noteq> None"
    by (simp add: clickGenerate_def generateDisabled_def isLoading_def exampleApp_def
          trim_js_def isWhiteSpace_def asc_def)
  show ?thesis
    using run_rejected_while_loading [of "exampleApp\<lparr>appState := GENERATING_IMAGES\<rparr>" exampleEnv]
      run_rejected_while_loading [of "exampleApp\<lparr>appState := GENERATING_PROMPTS\<rparr>" exampleEnv]
      run_rejected_while_loading [of exampleApp exampleEnv] idle click
    by simp
qed

lemma styleStage_calls:
  "(\<forall>c\<in>set (snd (styleStage env style ref)). \<exists>d. c = AnalyzeStyleCall d)
   \<and> (ref = None \<longrightarrow> snd (styleStage env style ref) = [])"
  by (auto simp: styleStage_def split: option.splits sum.splits)

lemma handleGenerate_no_prompts:
  assumes "promptSource app = Custom" and "parsePrompts (customPrompts app) = []"
  shows "handleGenerate env app =
           (abort (startRun app)
              (case fst (styleStage env (imageStyle app) (referenceImageFile app)) of
                 Inl msg \<Rightarrow> msg
               | Inr style \<Rightarrow>
                   if trim_js (customPrompts app) = [] then asc ''Custom prompts field cannot be empty.''
                   else noValidPromptsMessage),
            snd (styleStage env (imageStyle app) (referenceImageFile app)))"
proof -
  obtain r calls where st: "styleStage env (imageStyle app) (referenceImageFile app) = (r, calls)"
    by fastforce
  show ?thesis
    using assms by (cases r) (simp_all add: handleGenerate_def st)
qed

text \<open>
  C4, amended. In custom mode, when no line of the input, stripped, matches the
  numbered-prompt pattern, the run ends in \<open>IDLE\<close> with an error and without images,
  and the only call it may have made is the style analysis of step 1, which runs before
  the prompts are read: exactly the calls of step 1 are made, none when there is no
  reference image. The error is the one of step 1 when the analysis fails, and otherwise
  the message that names the problem of the input: the empty field, or the absence of a
  numbered prompt.
\<close>

theorem custom_without_numbered_line_aborts:
  assumes "promptSource app = Custom" and "noNumberedLine (customPrompts app)"
  shows "appState (fst (handleGenerate env app)) = IDLE
         \<and> generatedImages (fst (handleGenerate env app)) = []
         \<and> error (fst (handleGenerate env app)) =
             Some (case fst (styleStage env (imageStyle app) (referenceImageFile app)) of
                     Inl msg \<Rightarrow> msg
                   | Inr style \<Rightarrow>
                       if trim_js (customPrompts app) = []
                       then asc ''Custom prompts field cannot be empty.''
                       else noValidPromptsMessage)
         \<and> snd (handleGenerate env app) = snd (styleStage env (imageStyle app) (referenceImageFile app))
         \<and> (\<forall>c\<in>set (snd (handleGenerate env app)). \<exists>d. c = AnalyzeStyleCall d)
         \<and> (referenceImageFile app = None \<longrightarrow> snd (handleGenerate env app) = [])"
proof -
  have "parsePrompts (customPrompts app) = []"
    using assms(2) by (rule noNumberedLine_parse)
  then show ?thesis
    using styleStage_calls [of env "imageStyle app" "referenceImageFile app"]
    by (simp add: handleGenerate_no_prompts [OF assms(1)] abort_def)
qed

theorem custom_without_numbered_line_aborts_witness:
  "promptSource customApp = Custom
   \<and> noNumberedLine (customPrompts customApp)
   \<and> appState (fst (handleGenerate exampleEnv customApp)) = IDLE
   \<and> error (fst (handleGenerate exampleEnv customApp)) = Some noValidPromptsMessage
   \<and> snd (handleGenerate exampleEnv customApp) = []"
proof -
  have src: "promptSource customApp = Custom"
    by (simp add: customApp_def)
  have none: "noNumberedLine (customPrompts customApp)"
    by (simp add: customApp_def exampleApp_def noNumberedLine_def parse_defs)
  have ref: "referenceImageFile customApp = None"
    by (simp add: customApp_def exampleApp_def)
  have ne: "trim_js (customPrompts customApp) \<noteq> []"
    by (simp add: customApp_def exampleApp_def parse_defs)
  have style: "fst (styleStage exampleEnv (imageStyle customApp) None) = Inr (imageStyle customApp)"
    by (simp add: styleStage_def)
  show ?thesis
    using custom_without_numbered_line_aborts [OF src none, of exampleEnv] src none ne
    unfolding ref style by (simp add: styleStage_def)
qed

text \<open>
  C4, as stated, fails when a reference image is supplied: the input \<open>hello\<close> has no
  numbered line, and the run calls the style analysis before it rejects the input.
\<close>

theorem custom_without_numbered_line_counterexample:
  "promptSource customAppWithReference = Custom
   \<and> split_nl (customPrompts customAppWithReference) = [asc ''hello'']
   \<and> matchNumbered (asc ''hello'') = None
   \<and> snd (handleGenerate exampleEnv customAppWithReference) =
       [AnalyzeStyleCall \<lparr>data_base64 = Some (asc ''QUJD''), data_mimeType = asc ''image/png''\<rparr>]
   \<and> snd (handleGenerate exampleEnv customAppWithReference) \<noteq> []"
  by (simp add: customAppWithReference_def customApp_def exampleApp_def exampleEnv_def
        exampleFile_def noValidPromptsMessage_def run_defs parse_defs)

end
